theory Spec2Isabelle
  imports Main "HOL-Library.Word"
begin

unbundle bit_operations_syntax

section \<open>Machine types and protocol constants (src/src/command.c)\<close>

type_synonym u8 = "8 word"
type_synonym u16 = "16 word"
type_synonym u32 = "32 word"

definition MESSAGE_MIN :: nat where "MESSAGE_MIN = 5"
definition MESSAGE_MAX :: nat where "MESSAGE_MAX = 64"
definition MESSAGE_HEADER_SIZE :: nat where "MESSAGE_HEADER_SIZE = 2"
definition MESSAGE_TRAILER_SIZE :: nat where "MESSAGE_TRAILER_SIZE = 3"
definition MESSAGE_POS_LEN :: nat where "MESSAGE_POS_LEN = 0"
definition MESSAGE_POS_SEQ :: nat where "MESSAGE_POS_SEQ = 1"
definition MESSAGE_TRAILER_CRC :: nat where "MESSAGE_TRAILER_CRC = 3"
definition MESSAGE_TRAILER_SYNC :: nat where "MESSAGE_TRAILER_SYNC = 1"
definition MESSAGE_PAYLOAD_MAX :: nat where "MESSAGE_PAYLOAD_MAX = MESSAGE_MAX - MESSAGE_MIN"
definition MESSAGE_SEQ_MASK :: u8 where "MESSAGE_SEQ_MASK = 0x0f"
definition MESSAGE_DEST :: u8 where "MESSAGE_DEST = 0x10"
definition MESSAGE_SYNC :: u8 where "MESSAGE_SYNC = 0x7E"

text \<open>
  Errors of the model. \<open>Shutdown\<close> is the firmware's \<open>shutdown(reason)\<close>, which does not
  return to its caller. \<open>Out_of_bounds\<close> marks a read outside the bytes or table entries the
  model holds (past the end of the input buffer, of a schema table or of the variadic
  argument list), where the C program would read whatever memory follows.
\<close>

datatype error = Shutdown string | Out_of_bounds

section \<open>CRC engine\<close>

text \<open>
  One round of the loop body of \<open>crc16_ccitt\<close>: \<open>data\<close> is a \<open>uint8_t\<close>, so
  \<open>data ^= data << 4\<close> keeps the low eight bits; \<open>crc\<close> is a \<open>uint16_t\<close>.
\<close>

definition crc16_step :: "u16 \<Rightarrow> u8 \<Rightarrow> u16" where
  "crc16_step crc b =
     (let data0 = b XOR ucast (crc AND 0xff);
          data = data0 XOR push_bit 4 data0
      in ((push_bit 8 (ucast data) OR drop_bit 8 crc) XOR ucast (drop_bit 4 data))
           XOR push_bit 3 (ucast data))"

text \<open>\<open>while (len--)\<close> over the bytes at \<open>buf\<close>. The callers never pass a length beyond
  the buffer; the model stops at the end of the list.\<close>

fun crc16_loop :: "u16 \<Rightarrow> u8 list \<Rightarrow> nat \<Rightarrow> u16" where
  "crc16_loop crc buf 0 = crc"
| "crc16_loop crc [] (Suc n) = crc"
| "crc16_loop crc (b # buf) (Suc n) = crc16_loop (crc16_step crc b) buf n"

text \<open>The portable branch of \<open>crc16_ccitt\<close> (the one taken when \<open>HAVE_OPTIMIZED_CRC\<close> is 0);
  \<open>len\<close> is a \<open>uint8_t\<close>.\<close>

definition crc16_ccitt :: "u8 list \<Rightarrow> u8 \<Rightarrow> u16" where
  "crc16_ccitt buf len = crc16_loop 0xffff buf (unat len)"

section \<open>VLQ codec\<close>

text \<open>\<open>encode_int\<close> returns the bytes it stores at \<open>p\<close>; the returned pointer is \<open>p\<close>
  advanced by their number. The labels \<open>f1\<close> .. \<open>f4\<close> are the fall-through tails.\<close>

definition encode_int :: "u32 \<Rightarrow> u8 list" where
  "encode_int v =
     (let sv = sint v;
          f4 = [ucast (v AND 0x7f) :: u8];
          f3 = ucast ((drop_bit 7 v AND 0x7f) OR 0x80) # f4;
          f2 = ucast ((drop_bit 14 v AND 0x7f) OR 0x80) # f3;
          f1 = ucast ((drop_bit 21 v AND 0x7f) OR 0x80) # f2
      in if sv < 3 * 2 ^ 5 \<and> sv \<ge> - (2 ^ 5) then f4
         else if sv < 3 * 2 ^ 12 \<and> sv \<ge> - (2 ^ 12) then f3
         else if sv < 3 * 2 ^ 19 \<and> sv \<ge> - (2 ^ 19) then f2
         else if sv < 3 * 2 ^ 26 \<and> sv \<ge> - (2 ^ 26) then f1
         else ucast (drop_bit 28 v OR 0x80) # f1)"

text \<open>The \<open>while (c & 0x80)\<close> loop of \<open>parse_int\<close>: \<open>p\<close> is the cursor as an offset into
  \<open>buf\<close>, \<open>c\<close> the byte read last, \<open>v\<close> the value so far.\<close>

function parse_int_loop :: "u8 list \<Rightarrow> nat \<Rightarrow> u8 \<Rightarrow> u32 \<Rightarrow> error + (u32 \<times> nat)" where
  "parse_int_loop buf p c v =
     (if c AND 0x80 = 0 then Inr (v, p)
      else if p < length buf
           then parse_int_loop buf (p + 1) (buf ! p) (push_bit 7 v OR ucast (buf ! p AND 0x7f))
           else Inl Out_of_bounds)"
  by pat_completeness auto
termination
  by (relation "measure (\<lambda>(buf, p, c, v). length buf - p)") auto

declare parse_int_loop.simps [simp del]

text \<open>\<open>parse_int(&p)\<close>: the value and the new cursor.\<close>

definition parse_int :: "u8 list \<Rightarrow> nat \<Rightarrow> error + (u32 \<times> nat)" where
  "parse_int buf p =
     (if p < length buf
      then (let c = buf ! p;
                v0 = ucast (c AND 0x7f) :: u32;
                v = (if c AND 0x60 = 0x60 then v0 OR (- 0x20) else v0)
            in parse_int_loop buf (p + 1) c v)
      else Inl Out_of_bounds)"

section \<open>Device state and the collaborators of command.c\<close>

text \<open>
  The mutable state the code reads and writes. \<open>next_sequence\<close> is the file-level static
  of command.c, \<open>sync_state\<close> the function-level static of \<open>command_get_message\<close>. The
  other fields stand for the state of the collaborators that command.c calls: \<open>input_buf\<close>
  holds the received bytes not yet popped, \<open>output_frames\<close> the frames committed so far
  (oldest first), \<open>out_free\<close> the number of bytes the output transport can still reserve,
  and the last two fields are what \<open>sched_is_shutdown()\<close> and \<open>sched_shutdown_reason()\<close>
  return.
\<close>

record mcu =
  next_sequence :: u8
  sync_state :: u8
  input_buf :: "u8 list"
  output_frames :: "u8 list list"
  out_free :: nat
  sched_is_shutdown :: bool
  sched_shutdown_reason :: u16

text \<open>Modelled from the spec: \<open>console_get_input(&buf_len)\<close> is board code outside src/.
  It gives a contiguous view of the received bytes; \<open>buf_len\<close> is a \<open>uint8_t\<close>, so the
  view holds at most 255 bytes, and \<open>buf_len\<close> is the length of the list returned.\<close>

definition console_get_input :: "mcu \<Rightarrow> u8 list" where
  "console_get_input s = take 255 (input_buf s)"

text \<open>Modelled from the spec: \<open>console_pop_input(len)\<close> is board code outside src/. It
  consumes \<open>len\<close> bytes of the input.\<close>

definition console_pop_input :: "nat \<Rightarrow> mcu \<Rightarrow> mcu" where
  "console_pop_input len s = s\<lparr>input_buf := drop len (input_buf s)\<rparr>"

text \<open>Modelled from the spec: \<open>console_get_output(len)\<close> is board code outside src/. It
  returns a buffer, or NULL when \<open>len\<close> bytes cannot be reserved; only that distinction
  is modelled.\<close>

definition console_get_output :: "nat \<Rightarrow> mcu \<Rightarrow> bool" where
  "console_get_output len s \<longleftrightarrow> len \<le> out_free s"

text \<open>Modelled from the spec: \<open>console_push_output(len)\<close> is board code outside src/. It
  publishes the first \<open>len\<close> bytes of the buffer reserved last.\<close>

definition console_push_output :: "u8 list \<Rightarrow> nat \<Rightarrow> mcu \<Rightarrow> mcu" where
  "console_push_output buf len s =
     s\<lparr>output_frames := output_frames s @ [take len buf], out_free := out_free s - len\<rparr>"

subsection \<open>Schema tables\<close>

text \<open>
  Modelled from the spec: the enumeration of argument types is declared in command.h,
  outside src/. Its members are listed in the order of the header, in which the three
  types at or above \<open>PT_uint16\<close> among the integer types are \<open>PT_uint16\<close>, \<open>PT_int16\<close>
  and \<open>PT_byte\<close>. \<open>PT_unknown\<close> stands for every other value of the \<open>uint8_t\<close> read from
  a \<open>param_types\<close> table.
\<close>

datatype param_type =
  PT_uint32 | PT_int32 | PT_uint16 | PT_int16 | PT_byte
  | PT_string | PT_progmem_buffer | PT_buffer | PT_unknown u8

text \<open>\<open>struct command_encoder\<close>, with the fields that \<open>_sendf\<close> reads.\<close>

record command_encoder =
  msg_id :: u8
  max_size :: u8
  enc_num_params :: u8
  enc_param_types :: "param_type list"

text \<open>\<open>struct command_parser\<close>, with the fields that \<open>parsef\<close> and \<open>command_task\<close>
  read. A handler receives the argument vector and acts on the device state; it may
  itself send messages or call \<open>shutdown\<close>.\<close>

record command_parser =
  num_params :: u8
  param_types :: "param_type list"
  num_args :: u8
  flags :: u8
  func :: "u32 list \<Rightarrow> mcu \<Rightarrow> error + mcu"

text \<open>Modelled from the spec: the flag bit \<open>HF_IN_SHUTDOWN\<close> is defined in command.h,
  outside src/.\<close>

definition HF_IN_SHUTDOWN :: u8 where "HF_IN_SHUTDOWN = 0x01"

text \<open>
  The read-only tables built at compile time: \<open>command_index\<close> (with NULL entries as
  \<open>None\<close>; \<open>command_index_size\<close> is its length) and the encoder that the \<open>sendf\<close> macro
  selects for the format \<open>"is_shutdown static_string_id=%hu"\<close>.
\<close>

record schema =
  command_index :: "command_parser option list"
  encoder_is_shutdown :: command_encoder

text \<open>Modelled from the spec: the encoder that the \<open>sendf\<close> macro selects for the empty
  format \<open>""\<close> is generated by the build, outside src/. An empty format has no parameters
  and no payload, so its \<open>max_size\<close> is 0 and its \<open>msg_id\<close> is never written.\<close>

definition encoder_empty :: command_encoder where
  "encoder_empty = \<lparr>msg_id = 0, max_size = 0, enc_num_params = 0, enc_param_types = []\<rparr>"

text \<open>The variadic arguments of \<open>_sendf\<close>: integers (read with \<open>va_arg(args, int)\<close> or
  \<open>va_arg(args, uint32_t)\<close>) and pointers, a pointer being given by the bytes it points
  to.\<close>

datatype va = VA_int u32 | VA_ptr "u8 list"

section \<open>Transmission\<close>

text \<open>
  The \<open>while (num_params--)\<close> loop of \<open>_sendf\<close>. \<open>out\<close> holds the bytes written from
  \<open>&buf[MESSAGE_HEADER_SIZE]\<close> up to \<open>p\<close>, so \<open>p > maxend\<close> reads
  \<open>length out > max_size\<close> and \<open>maxend - p\<close> is \<open>max_size - length out\<close>. In the integer
  case \<open>t >= PT_uint16\<close> holds for the types other than \<open>PT_uint32\<close> and \<open>PT_int32\<close>. A
  string is copied up to its NUL byte or until \<open>p\<close> reaches \<open>maxend\<close>, and its length byte
  is patched afterwards; a buffer is clamped to \<open>maxend - p\<close> bytes.
\<close>

fun sendf_loop :: "nat \<Rightarrow> nat \<Rightarrow> param_type list \<Rightarrow> va list \<Rightarrow> u8 list \<Rightarrow> error + u8 list" where
  "sendf_loop max_sz 0 pts args out = Inr out"
| "sendf_loop max_sz (Suc n) pts args out =
     (if length out > max_sz then Inl (Shutdown ''Message encode error'')
      else case pts of
        [] \<Rightarrow> Inl Out_of_bounds
      | t # pts' \<Rightarrow>
          if t = PT_uint32 \<or> t = PT_int32 \<or> t = PT_uint16 \<or> t = PT_int16 \<or> t = PT_byte then
            (case args of
               VA_int a # args' \<Rightarrow>
                 (let v = (if t \<noteq> PT_uint32 \<and> t \<noteq> PT_int32 then a AND 0xffff else a)
                  in sendf_loop max_sz n pts' args' (out @ encode_int v))
             | _ \<Rightarrow> Inl Out_of_bounds)
          else if t = PT_string then
            (case args of
               VA_ptr s # args' \<Rightarrow>
                 (let str = takeWhile (\<lambda>c. c \<noteq> 0) s;
                      cnt = min (length str) (max_sz - (length out + 1))
                  in sendf_loop max_sz n pts' args' (out @ [of_nat cnt] @ take cnt str))
             | _ \<Rightarrow> Inl Out_of_bounds)
          else if t = PT_progmem_buffer \<or> t = PT_buffer then
            (case args of
               VA_int a # VA_ptr s # args' \<Rightarrow>
                 (let v = min (unat a) (max_sz - length out)
                  in if length s < v then Inl Out_of_bounds
                     else sendf_loop max_sz n pts' args' (out @ [of_nat v] @ take v s))
             | _ \<Rightarrow> Inl Out_of_bounds)
          else Inl (Shutdown ''Message encode error''))"

text \<open>
  The framing at the end of \<open>_sendf\<close> ("Send message to serial port"): \<open>payload\<close> is what
  lies between \<open>&buf[MESSAGE_HEADER_SIZE]\<close> and \<open>p\<close>, \<open>seq\<close> the value of
  \<open>next_sequence\<close>. \<open>msglen\<close> and the length handed to \<open>crc16_ccitt\<close> are \<open>uint8_t\<close>.
\<close>

definition message_frame :: "u8 \<Rightarrow> u8 list \<Rightarrow> u8 list" where
  "message_frame seq payload =
     (let msglen = of_nat (MESSAGE_HEADER_SIZE + length payload + MESSAGE_TRAILER_SIZE) :: u8;
          body = [msglen, seq] @ payload;
          crc = crc16_ccitt body (of_nat (length body))
      in body @ [ucast (drop_bit 8 crc), ucast crc, MESSAGE_SYNC])"

text \<open>\<open>_sendf(parserid, ...)\<close>, with the encoder \<open>&command_encoders[parserid]\<close> passed
  itself.\<close>

definition sendf :: "command_encoder \<Rightarrow> va list \<Rightarrow> mcu \<Rightarrow> error + mcu" where
  "sendf cp args s =
     (if \<not> console_get_output (unat (max_size cp) + MESSAGE_MIN) s then Inr s
      else case (if max_size cp \<noteq> 0
                 then sendf_loop (unat (max_size cp)) (unat (enc_num_params cp))
                        (enc_param_types cp) args [msg_id cp]
                 else Inr []) of
        Inl e \<Rightarrow> Inl e
      | Inr payload \<Rightarrow>
          (let buf = message_frame (next_sequence s) payload;
               msglen = buf ! MESSAGE_POS_LEN
           in Inr (console_push_output buf (unat msglen) s)))"

section \<open>Command parsing\<close>

text \<open>
  The \<open>while (num_params--)\<close> loop of \<open>parsef\<close>. \<open>buf\<close> is the input buffer, \<open>p\<close> and
  \<open>maxend\<close> are offsets into it, \<open>args\<close> the argument vector written so far. A buffer
  parameter stores its length and the address of its bytes, the address being the offset
  into \<open>buf\<close>.
\<close>

fun parsef_loop ::
  "u8 list \<Rightarrow> nat \<Rightarrow> nat \<Rightarrow> param_type list \<Rightarrow> nat \<Rightarrow> u32 list \<Rightarrow> error + (nat \<times> u32 list)" where
  "parsef_loop buf maxend 0 pts p args = Inr (p, args)"
| "parsef_loop buf maxend (Suc n) pts p args =
     (if p > maxend then Inl (Shutdown ''Command parser error'')
      else case pts of
        [] \<Rightarrow> Inl Out_of_bounds
      | t # pts' \<Rightarrow>
          if t = PT_uint32 \<or> t = PT_int32 \<or> t = PT_uint16 \<or> t = PT_int16 \<or> t = PT_byte then
            (case parse_int buf p of
               Inl e \<Rightarrow> Inl e
             | Inr (v, p') \<Rightarrow> parsef_loop buf maxend n pts' p' (args @ [v]))
          else if t = PT_buffer then
            (if p < length buf then
               (let len = buf ! p; p1 = p + 1
                in if p1 + unat len > maxend then Inl (Shutdown ''Command parser error'')
                   else parsef_loop buf maxend n pts' (p1 + unat len)
                          (args @ [ucast len, of_nat p1]))
             else Inl Out_of_bounds)
          else Inl (Shutdown ''Command parser error''))"

text \<open>\<open>parsef\<close>: \<open>None\<close> is the NULL result, \<open>Some (p, args)\<close> the returned cursor with
  the arguments stored through \<open>args\<close>. \<open>enc\<close> is the encoder of the \<open>is_shutdown\<close>
  response.\<close>

definition parsef ::
  "command_encoder \<Rightarrow> u8 list \<Rightarrow> nat \<Rightarrow> nat \<Rightarrow> command_parser \<Rightarrow> mcu
     \<Rightarrow> error + ((nat \<times> u32 list) option \<times> mcu)" where
  "parsef enc buf p maxend cp s =
     (if sched_is_shutdown s \<and> flags cp AND HF_IN_SHUTDOWN = 0 then
        (case sendf enc [VA_int (ucast (sched_shutdown_reason s))] s of
           Inl e \<Rightarrow> Inl e
         | Inr s' \<Rightarrow> Inr (None, s'))
      else case parsef_loop buf maxend (unat (num_params cp)) (param_types cp) p [] of
        Inl e \<Rightarrow> Inl e
      | Inr r \<Rightarrow> Inr (Some r, s))"

section \<open>Command routing\<close>

definition command_get_handler :: "command_parser option list \<Rightarrow> u8 \<Rightarrow> error + command_parser" where
  "command_get_handler cmd_index cmdid =
     (if unat cmdid \<ge> length cmd_index then Inl (Shutdown ''Invalid command'')
      else case cmd_index ! unat cmdid of
        None \<Rightarrow> Inl (Shutdown ''Invalid command'')
      | Some cp \<Rightarrow> Inr cp)"

definition CF_NEED_SYNC :: u8 where "CF_NEED_SYNC = 1"
definition CF_NEED_VALID :: u8 where "CF_NEED_VALID = 2"

text \<open>\<open>memchr(buf, c, buf_len)\<close>: the offset of the first occurrence.\<close>

fun memchr :: "u8 list \<Rightarrow> u8 \<Rightarrow> nat option" where
  "memchr [] c = None"
| "memchr (b # bs) c = (if b = c then Some 0 else map_option Suc (memchr bs c))"

text \<open>The label \<open>nak\<close>: \<open>sendf("")\<close>, then \<open>return NULL\<close>.\<close>

definition cgm_nak :: "mcu \<Rightarrow> error + (u8 list option \<times> mcu)" where
  "cgm_nak s = (case sendf encoder_empty [] s of Inl e \<Rightarrow> Inl e | Inr s' \<Rightarrow> Inr (None, s'))"

text \<open>The label \<open>need_sync\<close>.\<close>

definition cgm_need_sync :: "u8 list \<Rightarrow> mcu \<Rightarrow> error + (u8 list option \<times> mcu)" where
  "cgm_need_sync buf s =
     (let s1 = (case memchr buf MESSAGE_SYNC of
                  Some next_sync \<Rightarrow>
                    console_pop_input (next_sync + 1)
                      (s\<lparr>sync_state := sync_state s AND NOT CF_NEED_SYNC\<rparr>)
                | None \<Rightarrow> console_pop_input (length buf) s)
      in if sync_state s1 AND CF_NEED_VALID \<noteq> 0 then Inr (None, s1)
         else cgm_nak (s1\<lparr>sync_state := sync_state s1 OR CF_NEED_VALID\<rparr>))"

text \<open>The label \<open>error\<close>. It is reached only with \<open>buf_len \<ge> MESSAGE_MIN\<close>.\<close>

definition cgm_error :: "u8 list \<Rightarrow> mcu \<Rightarrow> error + (u8 list option \<times> mcu)" where
  "cgm_error buf s =
     (if buf ! 0 = MESSAGE_SYNC then Inr (None, console_pop_input 1 s)
      else cgm_need_sync buf (s\<lparr>sync_state := sync_state s OR CF_NEED_SYNC\<rparr>))"

text \<open>
  \<open>msgcrc = (buf[msglen-MESSAGE_TRAILER_CRC] << 8) | (uint8_t)buf[msglen-MESSAGE_TRAILER_CRC+1]\<close>.
  \<open>buf\<close> is a \<open>char *\<close>: with a signed \<open>char\<close> the first byte is promoted to a negative
  \<open>int\<close> when its bit 7 is set, so the shift and the OR are taken on integers
  (\<open>sint\<close>), and the assignment to the \<open>uint16_t\<close> keeps the low 16 bits. The C
  standard leaves the left shift of a negative \<open>int\<close> to the implementation; the model
  takes the two's complement result (the value times 256), as the compilers the firmware
  is built with do.
\<close>

definition msgcrc :: "u8 list \<Rightarrow> u8 \<Rightarrow> u16" where
  "msgcrc buf msglen =
     word_of_int (push_bit 8 (sint (buf ! (unat msglen - MESSAGE_TRAILER_CRC)))
                  OR uint (buf ! (unat msglen - MESSAGE_TRAILER_CRC + 1)))"

text \<open>The code after the CRC comparison: clear \<open>CF_NEED_VALID\<close>, check the sequence
  number, acknowledge.\<close>

definition cgm_valid :: "u8 list \<Rightarrow> u8 \<Rightarrow> u8 \<Rightarrow> mcu \<Rightarrow> error + (u8 list option \<times> mcu)" where
  "cgm_valid buf msglen msgseq s =
     (let s1 = s\<lparr>sync_state := sync_state s AND NOT CF_NEED_VALID\<rparr>
      in if msgseq \<noteq> next_sequence s1 then cgm_nak (console_pop_input (unat msglen) s1)
         else case sendf encoder_empty []
                     (s1\<lparr>next_sequence := ((msgseq + 1) AND MESSAGE_SEQ_MASK) OR MESSAGE_DEST\<rparr>) of
                Inl e \<Rightarrow> Inl e
              | Inr s2 \<Rightarrow> Inr (Some buf, s2))"

text \<open>\<open>command_get_message\<close>: \<open>None\<close> is the NULL result, \<open>Some buf\<close> the buffer that
  starts with a complete message.\<close>

definition command_get_message :: "mcu \<Rightarrow> error + (u8 list option \<times> mcu)" where
  "command_get_message s =
     (let buf = console_get_input s; buf_len = length buf
      in if buf_len \<noteq> 0 \<and> sync_state s AND CF_NEED_SYNC \<noteq> 0 then cgm_need_sync buf s
         else if buf_len < MESSAGE_MIN then Inr (None, s)
         else let msglen = buf ! MESSAGE_POS_LEN
           in if unat msglen < MESSAGE_MIN \<or> unat msglen > MESSAGE_MAX then cgm_error buf s
              else let msgseq = buf ! MESSAGE_POS_SEQ
                in if msgseq AND NOT MESSAGE_SEQ_MASK \<noteq> MESSAGE_DEST then cgm_error buf s
                   else if buf_len < unat msglen then Inr (None, s)
                   else if buf ! (unat msglen - MESSAGE_TRAILER_SYNC) \<noteq> MESSAGE_SYNC
                     then cgm_error buf s
                   else if crc16_ccitt buf (msglen - of_nat MESSAGE_TRAILER_SIZE)
                             \<noteq> msgcrc buf msglen
                     then cgm_error buf s
                   else cgm_valid buf msglen msgseq s)"

text \<open>The \<open>while (p < msgend)\<close> loop of \<open>command_task\<close>; \<open>buf\<close> is the buffer returned
  by \<open>command_get_message\<close>. The cursor moves forward in every round, which is what the
  termination proof shows.\<close>

function command_task_loop :: "schema \<Rightarrow> u8 list \<Rightarrow> nat \<Rightarrow> nat \<Rightarrow> mcu \<Rightarrow> error + mcu" where
  "command_task_loop sc buf msgend p s =
     (if p < msgend then
        (if p < length buf then
           (let cmdid = buf ! p; p1 = p + 1
            in case command_get_handler (command_index sc) cmdid of
                 Inl e \<Rightarrow> Inl e
               | Inr cp \<Rightarrow>
                   (case parsef (encoder_is_shutdown sc) buf p1 msgend cp s of
                      Inl e \<Rightarrow> Inl e
                    | Inr (None, s1) \<Rightarrow> Inr s1
                    | Inr (Some (p2, args), s1) \<Rightarrow>
                        (case func cp args s1 of
                           Inl e \<Rightarrow> Inl e
                         | Inr s2 \<Rightarrow> command_task_loop sc buf msgend p2 s2)))
         else Inl Out_of_bounds)
      else Inr s)"
  by pat_completeness auto
termination
proof (relation "measure (\<lambda>(sc, buf, msgend, p, s). msgend - p)", goal_cases)
  case 1
  show ?case by simp
next
  case (2 sc buf msgend p s cmdid p1 cp r a s1 pa p2 args s2)
  have loop_mono: "parse_int_loop b q c v = Inr (v', q') \<Longrightarrow> q \<le> q'" for b q c v v' q'
  proof (induction b q c v rule: parse_int_loop.induct)
    case (1 buf p c v)
    from "1.prems" show ?case
      by (subst (asm) parse_int_loop.simps) (auto split: if_splits dest!: "1.IH")
  qed
  have int_mono: "parse_int b q = Inr (v', q') \<Longrightarrow> q < q'" for b q v' q'
    by (auto simp add: parse_int_def Let_def split: if_splits dest!: loop_mono)
  have pf_mono: "parsef_loop b m n pts q as = Inr (q', as') \<Longrightarrow> q \<le> q'" for b m n pts q as q' as'
  proof (induction n arbitrary: pts q as)
    case 0
    then show ?case by simp
  next
    case (Suc n)
    from Suc.prems show ?case
      by (auto simp add: Let_def split: if_splits list.splits sum.splits prod.splits
            dest!: Suc.IH int_mono)
  qed
  from 2 have "parsef_loop buf msgend (unat (num_params cp)) (param_types cp) (p + 1) []
      = Inr (p2, args)"
    by (auto simp add: parsef_def split: if_splits sum.splits)
  then have "p + 1 \<le> p2" by (rule pf_mono)
  then show ?case using 2 by simp
qed

text \<open>\<open>command_task\<close>, one invocation of the background task.\<close>

definition command_task :: "schema \<Rightarrow> mcu \<Rightarrow> error + mcu" where
  "command_task sc s =
     (case command_get_message s of
        Inl e \<Rightarrow> Inl e
      | Inr (None, s1) \<Rightarrow> Inr s1
      | Inr (Some buf, s1) \<Rightarrow>
          (let msglen = buf ! MESSAGE_POS_LEN
           in case command_task_loop sc buf (unat msglen - MESSAGE_TRAILER_SIZE)
                     MESSAGE_HEADER_SIZE s1 of
                Inl e \<Rightarrow> Inl e
              | Inr s2 \<Rightarrow> Inr (console_pop_input (unat msglen) s2)))"


section \<open>Notions used in the statements\<close>

text \<open>The first value of \<open>v\<close> in \<open>parse_int\<close> and one round of its loop.\<close>

definition vlq_init :: "u8 \<Rightarrow> u32" where
  "vlq_init c = (if c AND 0x60 = 0x60 then ucast (c AND 0x7f) OR (- 0x20) else ucast (c AND 0x7f))"

definition vlq_shift :: "u32 \<Rightarrow> u8 \<Rightarrow> u32" where
  "vlq_shift v c = push_bit 7 v OR ucast (c AND 0x7f)"

text \<open>The bytes \<open>encode_int\<close> stores: the leading byte of the five-byte form, a
  continuation byte taken at bit offset \<open>J\<close>, and the last byte.\<close>

definition vlq_top :: "u32 \<Rightarrow> u8" where
  "vlq_top v = ucast (drop_bit 28 v OR 0x80)"

definition vlq_mid :: "u32 \<Rightarrow> nat \<Rightarrow> u8" where
  "vlq_mid v J = ucast ((drop_bit J v AND 0x7f) OR 0x80)"

definition vlq_last :: "u32 \<Rightarrow> u8" where
  "vlq_last v = ucast (v AND 0x7f)"

text \<open>\<open>vlq_byte v J c\<close>: the low seven bits of \<open>c\<close> are the bits \<open>J .. J+6\<close> of \<open>v\<close>.
  \<open>vlq_repr v J w A\<close>: the decoder's value \<open>A\<close> holds the bits of \<open>v\<close> from \<open>J\<close> on in
  its low \<open>w\<close> bits and above them the sign extension of the top two.\<close>

definition vlq_byte :: "u32 \<Rightarrow> nat \<Rightarrow> u8 \<Rightarrow> bool" where
  "vlq_byte v J c \<longleftrightarrow> (\<forall>k<7. bit c k \<longleftrightarrow> bit v (J + k))"

definition vlq_repr :: "u32 \<Rightarrow> nat \<Rightarrow> nat \<Rightarrow> u32 \<Rightarrow> bool" where
  "vlq_repr v J w A \<longleftrightarrow>
     (\<forall>k<32. bit A k \<longleftrightarrow>
        (k < w \<and> bit v (J + k)) \<or> (bit v (J + w - 2) \<and> bit v (J + w - 1) \<and> w - 2 \<le> k))"

text \<open>The payload region of a received message, as \<open>command_task\<close> walks it: from
  \<open>&buf[MESSAGE_HEADER_SIZE]\<close> up to \<open>&buf[msglen-MESSAGE_TRAILER_SIZE]\<close>.\<close>

definition message_payload :: "u8 list \<Rightarrow> u8 list" where
  "message_payload buf =
     take (unat (buf ! MESSAGE_POS_LEN) - MESSAGE_TRAILER_SIZE - MESSAGE_HEADER_SIZE)
       (drop MESSAGE_HEADER_SIZE buf)"

text \<open>What \<open>sendf("")\<close> does to the state: a five-byte frame is committed if the
  transport can reserve it.\<close>

definition send_empty :: "mcu \<Rightarrow> mcu" where
  "send_empty s =
     (if MESSAGE_MIN \<le> out_free s
      then s\<lparr>output_frames := output_frames s @ [message_frame (next_sequence s) [] ],
             out_free := out_free s - MESSAGE_MIN\<rparr>
      else s)"

text \<open>The state after start-up, with \<open>inp\<close> received and room for \<open>free\<close> bytes of
  output: \<open>next_sequence\<close> is initialised to \<open>MESSAGE_DEST\<close>, the static \<open>sync_state\<close>
  to zero, and the device is not shut down.\<close>

definition mcu_boot :: "u8 list \<Rightarrow> nat \<Rightarrow> mcu" where
  "mcu_boot inp free =
     \<lparr>next_sequence = MESSAGE_DEST, sync_state = 0, input_buf = inp, output_frames = [],
      out_free = free, sched_is_shutdown = False, sched_shutdown_reason = 0\<rparr>"

text \<open>
  A small schema for concrete runs: one command (id 0) with a single \<open>uint32\<close> parameter
  and no \<open>HF_IN_SHUTDOWN\<close> flag, whose handler answers with a message (id 1) that carries
  its argument; and the \<open>is_shutdown\<close> response (id 2) with its \<open>%hu\<close> parameter.
\<close>

definition example_encoder :: command_encoder where
  "example_encoder = \<lparr>msg_id = 1, max_size = 6, enc_num_params = 1, enc_param_types = [PT_uint32]\<rparr>"

definition example_parser :: command_parser where
  "example_parser =
     \<lparr>num_params = 1, param_types = [PT_uint32], num_args = 1, flags = 0,
      func = (\<lambda>args s. sendf example_encoder [VA_int (args ! 0)] s)\<rparr>"

definition example_schema :: schema where
  "example_schema =
     \<lparr>command_index = [Some example_parser],
      encoder_is_shutdown =
        \<lparr>msg_id = 2, max_size = 4, enc_num_params = 1, enc_param_types = [PT_uint16]\<rparr>\<rparr>"

text \<open>The latch \<open>CF_NEED_VALID\<close> of \<open>sync_state\<close>.\<close>

definition need_valid :: "mcu \<Rightarrow> bool" where
  "need_valid s \<longleftrightarrow> sync_state s AND CF_NEED_VALID \<noteq> 0"

text \<open>
  Path conditions of \<open>command_get_message\<close>. \<open>cgm_framed s\<close>: the call goes past every
  check that precedes the CRC comparison. \<open>cgm_crc_ok s\<close>: it also passes the CRC
  comparison, so it reaches the line that clears \<open>CF_NEED_VALID\<close>.
\<close>

definition cgm_framed :: "mcu \<Rightarrow> bool" where
  "cgm_framed s \<longleftrightarrow>
     (let buf = console_get_input s; msglen = buf ! MESSAGE_POS_LEN
      in sync_state s AND CF_NEED_SYNC = 0 \<and> MESSAGE_MIN \<le> length buf
         \<and> MESSAGE_MIN \<le> unat msglen \<and> unat msglen \<le> MESSAGE_MAX
         \<and> (buf ! MESSAGE_POS_SEQ) AND NOT MESSAGE_SEQ_MASK = MESSAGE_DEST
         \<and> unat msglen \<le> length buf
         \<and> buf ! (unat msglen - MESSAGE_TRAILER_SYNC) = MESSAGE_SYNC)"

definition cgm_crc_ok :: "mcu \<Rightarrow> bool" where
  "cgm_crc_ok s \<longleftrightarrow>
     (let buf = console_get_input s; msglen = buf ! MESSAGE_POS_LEN
      in cgm_framed s
         \<and> crc16_ccitt buf (msglen - of_nat MESSAGE_TRAILER_SIZE) = msgcrc buf msglen)"

text \<open>
  A run of polls. Before each call of \<open>command_get_message\<close> the environment may deliver
  further bytes to the input and change the room of the output transport; an event
  \<open>(bytes, free)\<close> gives both. \<open>poll_run\<close> performs the calls in turn. \<open>run_invalid\<close>
  holds when no call of the run passes the CRC comparison.
\<close>

definition deliver :: "u8 list \<times> nat \<Rightarrow> mcu \<Rightarrow> mcu" where
  "deliver ev s = s\<lparr>input_buf := input_buf s @ fst ev, out_free := snd ev\<rparr>"

fun poll_run :: "(u8 list \<times> nat) list \<Rightarrow> mcu \<Rightarrow> error + mcu" where
  "poll_run [] s = Inr s"
| "poll_run (ev # evs) s =
     (case command_get_message (deliver ev s) of
        Inl e \<Rightarrow> Inl e
      | Inr (r, s') \<Rightarrow> poll_run evs s')"

fun run_invalid :: "(u8 list \<times> nat) list \<Rightarrow> mcu \<Rightarrow> bool" where
  "run_invalid [] s = True"
| "run_invalid (ev # evs) s =
     (\<not> cgm_crc_ok (deliver ev s)
      \<and> (case command_get_message (deliver ev s) of
            Inl e \<Rightarrow> True
          | Inr (r, s') \<Rightarrow> run_invalid evs s'))"


section \<open>Lemmas on the VLQ codec\<close>


lemma int_nonneg_bits: 
  assumes "0 \<le> (x::int)" "x < 2 ^ n" "n \<le> k" shows "\<not> bit x k"
proof -
  have "take_bit n x = x" using assms by (simp add: take_bit_int_eq_self_iff)
  then have "bit x k = bit (take_bit n x) k" by simp
  then show ?thesis using assms by (simp add: bit_take_bit_iff)
qed

lemma int_neg_bits: 
  assumes "(x::int) < 0" "- (2 ^ n) \<le> x" "n \<le> k" shows "bit x k"
proof -
  have "0 \<le> NOT x" "NOT x < 2 ^ n" using assms by (simp_all add: not_int_def)
  then have "\<not> bit (NOT x) k" using assms(3) by (rule int_nonneg_bits)
  then show ?thesis by (simp add: bit_not_iff)
qed

lemma int_two_bits: 
  assumes "0 \<le> (x::int)" "bit x n" "bit x (Suc n)" shows "3 * 2 ^ n \<le> x"
proof -
  define y where "y = x div 2 ^ n"
  have y0: "0 \<le> y" using assms(1) by (simp add: y_def pos_imp_zdiv_nonneg_iff)
  have o1: "odd y" using assms(2) by (simp add: bit_iff_odd y_def)
  have "y div 2 ^ 1 = x div 2 ^ (n + 1)" unfolding y_def by (rule div_exp_eq)
  then have "x div 2 ^ Suc n = y div 2" by simp
  then have o2: "odd (y div 2)" using assms(3) by (simp add: bit_iff_odd)
  have "3 \<le> y" using y0 o1 o2 by presburger
  then have "3 * 2 ^ n \<le> y * 2 ^ n" by simp
  also have "\<dots> \<le> x" unfolding y_def
    by (metis div_mult_mod_eq le_add_same_cancel1 pos_mod_sign zero_less_numeral zero_less_power)
  finally show ?thesis .
qed

lemma bit_sint32: "k < 32 \<Longrightarrow> bit (sint (v::u32)) k = bit v k"
  by (auto simp add: bit_sint_iff dest: bit_imp_le_length)

lemma vlq_range_bits:
  assumes lo: "- (2 ^ n) \<le> sint (v::u32)" and hi: "sint v < 3 * 2 ^ n"
    and k: "n + 2 \<le> k" "k < 32"
  shows "bit v k = (bit v n \<and> bit v (Suc n))"
proof (cases "0 \<le> sint v")
  case True
  have "(3::int) * 2 ^ n \<le> 2 ^ (n + 2)" by simp
  with hi have "sint v < 2 ^ (n + 2)" by linarith
  with True have "\<not> bit (sint v) k" using k(1) by (rule int_nonneg_bits)
  moreover have "\<not> (bit (sint v) n \<and> bit (sint v) (Suc n))"
    using int_two_bits [OF True, of n] hi by auto
  ultimately show ?thesis using k by (simp add: bit_sint32)
next
  case False
  then have neg: "sint v < 0" by simp
  have "bit (sint v) k" "bit (sint v) n" "bit (sint v) (Suc n)"
    using int_neg_bits [OF neg lo] k by simp_all
  then show ?thesis using k by (simp add: bit_sint32)
qed

lemma c7f: "(0x7f :: 'a::len word) = mask 7"
  by (simp add: mask_eq_exp_minus_1)

lemma c60: "(0x60 :: u8) = push_bit 5 (mask 2)"
  by (simp add: mask_eq_exp_minus_1)

lemma bit_0x80: "bit (0x80 :: int) k \<longleftrightarrow> k = 7"
  using bit_exp_iff [where ?'a = int, of 7 k] by auto

lemma cm20: "(- 0x20 :: u32) = NOT (mask 5)"
  by (simp add: mask_eq_exp_minus_1)

lemma bit_vlq_byte:
  "j + 7 \<le> 32 \<Longrightarrow> bit (ucast ((drop_bit j (v::u32) AND 0x7f) OR 0x80) :: u8) k \<longleftrightarrow> (k < 7 \<and> bit v (j + k)) \<or> k = 7"
  unfolding c7f by (auto simp add: bit_simps bit_0x80)

lemma bit_vlq_last:
  "bit (ucast ((v::u32) AND 0x7f) :: u8) k \<longleftrightarrow> (k < 7 \<and> bit v k)"
  unfolding c7f by (auto simp add: bit_simps bit_0x80)

lemma bit_vlq_first5:
  "bit (ucast (drop_bit 28 (v::u32) OR 0x80) :: u8) k \<longleftrightarrow> (k < 4 \<and> bit v (28 + k)) \<or> k = 7"
  unfolding c7f by (auto simp add: bit_simps bit_0x80 dest: bit_imp_le_length)

lemma sext_test: "((c::u8) AND 0x60 = 0x60) = (bit c 5 \<and> bit c 6)"
proof -
  have *: "(bit (c AND push_bit 5 (mask 2)) k = bit (push_bit 5 (mask 2) :: u8) k)
            \<longleftrightarrow> (5 \<le> k \<and> k < 7 \<longrightarrow> bit c k)" for k
    by (auto simp add: bit_simps)
  have "(\<forall>k. 5 \<le> k \<and> k < 7 \<longrightarrow> bit c k) \<longleftrightarrow> bit c 5 \<and> bit c 6"
  proof (intro iffI allI impI)
    fix k :: nat
    assume bits: "bit c 5 \<and> bit c 6" and "5 \<le> k \<and> k < 7"
    then have "k = 5 \<or> k = 6" by arith
    with bits show "bit c k" by auto
  qed simp
  then show ?thesis
    unfolding c60 bit_eq_iff [where ?'a = u8] * by (auto simp add: possible_bit_word)
qed

lemma bit_init:
  "bit (ucast ((c::u8) AND 0x7f) :: u32) k \<longleftrightarrow> k < 7 \<and> bit c k"
  "bit ((ucast ((c::u8) AND 0x7f) :: u32) OR (- 0x20)) k \<longleftrightarrow> (k < 7 \<and> bit c k) \<or> (5 \<le> k \<and> k < 32)"
  unfolding c7f cm20 by (auto simp add: bit_simps dest: bit_imp_le_length)

lemma bit_shift_in:
  "bit (push_bit 7 (v::u32) OR ucast ((c::u8) AND 0x7f)) k \<longleftrightarrow> (7 \<le> k \<and> k < 32 \<and> bit v (k - 7)) \<or> (k < 7 \<and> bit c k)"
  unfolding c7f by (auto simp add: bit_simps dest: bit_imp_le_length)

lemma bit_vlq_init: "bit (vlq_init c) k \<longleftrightarrow> (k < 7 \<and> bit c k) \<or> (bit c 5 \<and> bit c 6 \<and> 5 \<le> k \<and> k < 32)"
  by (auto simp add: vlq_init_def sext_test bit_init)

lemma bit_vlq_shift: "bit (vlq_shift v c) k \<longleftrightarrow> (7 \<le> k \<and> k < 32 \<and> bit v (k - 7)) \<or> (k < 7 \<and> bit c k)"
  by (simp add: vlq_shift_def bit_shift_in)

lemma vlq_byte_mid: "J + 7 \<le> 32 \<Longrightarrow> vlq_byte v J (ucast ((drop_bit J v AND 0x7f) OR 0x80))"
  by (simp add: vlq_byte_def bit_vlq_byte)

lemma vlq_byte_last: "vlq_byte v 0 (ucast (v AND 0x7f))"
  by (simp add: vlq_byte_def bit_vlq_last)

lemma vlq_byte_first5: "vlq_byte v 28 (ucast (drop_bit 28 v OR 0x80))"
  unfolding vlq_byte_def
proof (intro allI impI)
  fix k :: nat assume "k < 7"
  have "k < 4 \<or> \<not> bit v (28 + k)" by (auto dest: bit_imp_le_length)
  then show "bit (ucast (drop_bit 28 v OR 0x80) :: u8) k = bit v (28 + k)"
    using \<open>k < 7\<close> by (auto simp add: bit_vlq_first5)
qed

lemma vlq_repr_init: 
  assumes "vlq_byte v J c" shows "vlq_repr v J 7 (vlq_init c)"
  unfolding vlq_repr_def
proof (intro allI impI)
  fix k :: nat assume "k < 32"
  have c5: "bit c 5 = bit v (J + 7 - 2)" and c6: "bit c 6 = bit v (J + 7 - 1)"
    using assms by (simp_all add: vlq_byte_def add.commute)
  have ck: "k < 7 \<Longrightarrow> bit c k = bit v (J + k)" using assms by (simp add: vlq_byte_def)
  show "bit (vlq_init c) k = (k < 7 \<and> bit v (J + k) \<or> bit v (J + 7 - 2) \<and> bit v (J + 7 - 1) \<and> 7 - 2 \<le> k)"
    using \<open>k < 32\<close> ck by (auto simp add: bit_vlq_init c5 c6)
qed

lemma vlq_repr_step:
  assumes A: "vlq_repr v (J + 7) w A" and c: "vlq_byte v J c" and w: "2 \<le> w"
  shows "vlq_repr v J (w + 7) (vlq_shift A c)"
  unfolding vlq_repr_def
proof (intro allI impI)
  fix k :: nat assume k: "k < 32"
  show "bit (vlq_shift A c) k = (k < w + 7 \<and> bit v (J + k) \<or> bit v (J + (w + 7) - 2) \<and> bit v (J + (w + 7) - 1) \<and> w + 7 - 2 \<le> k)"
  proof (cases "k < 7")
    case True
    then have "bit (vlq_shift A c) k = bit v (J + k)"
      using c by (simp add: bit_vlq_shift vlq_byte_def)
    then show ?thesis using True w by auto
  next
    case False
    then have k7: "7 \<le> k" by simp
    have e1: "J + 7 + (k - 7) = J + k" using k7 by simp
    have e2: "J + 7 + w - 2 = J + (w + 7) - 2" "J + 7 + w - 1 = J + (w + 7) - 1" by simp_all
    have "bit (vlq_shift A c) k = bit A (k - 7)" using k k7 by (simp add: bit_vlq_shift)
    also have "\<dots> = (k - 7 < w \<and> bit v (J + k) \<or> bit v (J + (w + 7) - 2) \<and> bit v (J + (w + 7) - 1) \<and> w - 2 \<le> k - 7)"
      using A k unfolding vlq_repr_def e1 [symmetric] e2 [symmetric] by simp
    also have "\<dots> = (k < w + 7 \<and> bit v (J + k) \<or> bit v (J + (w + 7) - 2) \<and> bit v (J + (w + 7) - 1) \<and> w + 7 - 2 \<le> k)"
    proof -
      have "(k - 7 < w) = (k < w + 7)" "(w - 2 \<le> k - 7) = (w + 7 - 2 \<le> k)" using k7 w by arith+
      then show ?thesis by simp
    qed
    finally show ?thesis .
  qed
qed

lemma vlq_repr_final_range:
  assumes A: "vlq_repr v 0 (n + 2) A" and lo: "- (2 ^ n) \<le> sint v" and hi: "sint v < 3 * 2 ^ n"
  shows "A = v"
proof (rule bit_word_eqI)
  fix k assume "k < LENGTH(32)"
  then have k: "k < 32" by simp
  have L: "bit A k = (k < n + 2 \<and> bit v k \<or> bit v n \<and> bit v (Suc n) \<and> n \<le> k)"
    using A k by (simp add: vlq_repr_def)
  show "bit A k = bit v k"
  proof (cases "k < n + 2")
    case True
    then consider "k < n" | "k = n" | "k = Suc n" by arith
    then show ?thesis using L by cases auto
  next
    case False
    then have "bit v k = (bit v n \<and> bit v (Suc n))"
      using vlq_range_bits [OF lo hi _ k] by simp
    then show ?thesis using L False by auto
  qed
qed

lemma vlq_repr_final_full:
  assumes A: "vlq_repr v 0 35 A"
  shows "A = v"
proof (rule bit_word_eqI)
  fix k assume "k < LENGTH(32)"
  then have k: "k < 32" by simp
  have "\<not> bit v 33" by (auto dest: bit_imp_le_length)
  then show "bit A k = bit v k" using A k by (simp add: vlq_repr_def)
qed

lemma cont_bit: "((c::u8) AND 0x80 = 0) = (\<not> bit c 7)"
  using and_exp_eq_0_iff_not_bit [of c 7] by simp

lemma parse_int_loop_stop: "\<not> bit c 7 \<Longrightarrow> parse_int_loop buf p c v = Inr (v, p)"
  by (subst parse_int_loop.simps) (simp add: cont_bit)

lemma parse_int_loop_more:
  "bit c 7 \<Longrightarrow> p < length buf \<Longrightarrow>
   parse_int_loop buf p c v = parse_int_loop buf (Suc p) (buf ! p) (vlq_shift v (buf ! p))"
  by (subst parse_int_loop.simps) (simp add: cont_bit vlq_shift_def)

lemma parse_int_loop_run:
  "\<forall>b\<in>set bs. bit b 7 \<Longrightarrow> \<not> bit l 7 \<Longrightarrow> bit c 7 \<Longrightarrow>
   parse_int_loop (pre @ bs @ l # rest) (length pre) c v
     = Inr (foldl vlq_shift v (bs @ [l]), length pre + length bs + 1)"
proof (induction bs arbitrary: pre c v)
  case Nil
  then show ?case by (simp add: parse_int_loop_more parse_int_loop_stop)
next
  case (Cons b bs)
  have "parse_int_loop (pre @ (b # bs) @ l # rest) (length pre) c v
        = parse_int_loop ((pre @ [b]) @ bs @ l # rest) (length (pre @ [b])) b (vlq_shift v b)"
    using Cons.prems by (simp add: parse_int_loop_more)
  also have "\<dots> = Inr (foldl vlq_shift (vlq_shift v b) (bs @ [l]), length (pre @ [b]) + length bs + 1)"
    using Cons.prems by (intro Cons.IH) simp_all
  finally show ?case by simp
qed

lemma parse_int_run:
  assumes "\<forall>b\<in>set bs. bit b 7" "\<not> bit l 7"
  shows "parse_int (pre @ bs @ l # rest) (length pre)
     = Inr (foldl vlq_shift (vlq_init (hd (bs @ [l]))) (tl (bs @ [l])), length pre + length bs + 1)"
proof (cases bs)
  case Nil
  then show ?thesis using assms
    by (simp add: parse_int_def Let_def parse_int_loop_stop vlq_init_def)
next
  case (Cons b bs')
  have "parse_int (pre @ bs @ l # rest) (length pre)
        = parse_int_loop ((pre @ [b]) @ bs' @ l # rest) (length (pre @ [b])) b (vlq_init b)"
    using Cons by (simp add: parse_int_def Let_def vlq_init_def)
  also have "\<dots> = Inr (foldl vlq_shift (vlq_init b) (bs' @ [l]), length (pre @ [b]) + length bs' + 1)"
    using assms Cons by (intro parse_int_loop_run) simp_all
  finally show ?thesis using Cons by simp
qed

lemma bit7_or: "bit (ucast ((x::u32) OR 0x80) :: u8) 7"
  by (simp add: bit_simps bit_0x80)

lemma bit7: "bit (vlq_mid v J) 7" "\<not> bit (vlq_last v) 7" "bit (vlq_top v) 7"
  by (simp_all add: vlq_mid_def vlq_last_def vlq_top_def bit7_or bit_vlq_last)

lemma encode_int_cases:
  "encode_int v =
     (if sint v < 3 * 2 ^ 5 \<and> sint v \<ge> - (2 ^ 5) then [vlq_last v]
      else if sint v < 3 * 2 ^ 12 \<and> sint v \<ge> - (2 ^ 12) then [vlq_mid v 7, vlq_last v]
      else if sint v < 3 * 2 ^ 19 \<and> sint v \<ge> - (2 ^ 19) then [vlq_mid v 14, vlq_mid v 7, vlq_last v]
      else if sint v < 3 * 2 ^ 26 \<and> sint v \<ge> - (2 ^ 26)
        then [vlq_mid v 21, vlq_mid v 14, vlq_mid v 7, vlq_last v]
      else [vlq_top v, vlq_mid v 21, vlq_mid v 14, vlq_mid v 7, vlq_last v])"
  by (simp add: encode_int_def Let_def vlq_mid_def vlq_last_def vlq_top_def)

lemma vb: "vlq_byte v 0 (vlq_last v)" "vlq_byte v 7 (vlq_mid v 7)" "vlq_byte v 14 (vlq_mid v 14)"
  "vlq_byte v 21 (vlq_mid v 21)" "vlq_byte v 28 (vlq_top v)"
  unfolding vlq_last_def vlq_mid_def vlq_top_def
  by (simp_all add: vlq_byte_last vlq_byte_mid vlq_byte_first5)

lemma vlq_repr_step':
  assumes "vlq_repr v J' w A" "J' = J + 7" "vlq_byte v J c" "2 \<le> w" "w' = w + 7"
  shows "vlq_repr v J w' (vlq_shift A c)"
  using assms vlq_repr_step [of v J w A c] by simp

lemma dec1:
  assumes "- (2 ^ 5) \<le> sint v" "sint v < 3 * 2 ^ 5"
  shows "vlq_init (vlq_last v) = v"
proof -
  have "vlq_repr v 0 (5 + 2) (vlq_init (vlq_last v))"
    using vlq_repr_init [OF vb(1)] by simp
  then show ?thesis using assms by (rule vlq_repr_final_range)
qed

lemma dec2:
  assumes "- (2 ^ 12) \<le> sint v" "sint v < 3 * 2 ^ 12"
  shows "vlq_shift (vlq_init (vlq_mid v 7)) (vlq_last v) = v"
proof -
  have "vlq_repr v 7 7 (vlq_init (vlq_mid v 7))" by (rule vlq_repr_init [OF vb(2)])
  then have "vlq_repr v 0 (12 + 2) (vlq_shift (vlq_init (vlq_mid v 7)) (vlq_last v))"
    by (rule vlq_repr_step' [OF _ _ vb(1)]) simp_all
  then show ?thesis using assms by (rule vlq_repr_final_range)
qed

lemma dec3:
  assumes "- (2 ^ 19) \<le> sint v" "sint v < 3 * 2 ^ 19"
  shows "vlq_shift (vlq_shift (vlq_init (vlq_mid v 14)) (vlq_mid v 7)) (vlq_last v) = v"
proof -
  have "vlq_repr v 14 7 (vlq_init (vlq_mid v 14))" by (rule vlq_repr_init [OF vb(3)])
  then have "vlq_repr v 7 14 (vlq_shift (vlq_init (vlq_mid v 14)) (vlq_mid v 7))"
    by (rule vlq_repr_step' [OF _ _ vb(2)]) simp_all
  then have "vlq_repr v 0 (19 + 2)
      (vlq_shift (vlq_shift (vlq_init (vlq_mid v 14)) (vlq_mid v 7)) (vlq_last v))"
    by (rule vlq_repr_step' [OF _ _ vb(1)]) simp_all
  then show ?thesis using assms by (rule vlq_repr_final_range)
qed

lemma dec4:
  assumes "- (2 ^ 26) \<le> sint v" "sint v < 3 * 2 ^ 26"
  shows "vlq_shift (vlq_shift (vlq_shift (vlq_init (vlq_mid v 21)) (vlq_mid v 14)) (vlq_mid v 7))
           (vlq_last v) = v"
proof -
  have "vlq_repr v 21 7 (vlq_init (vlq_mid v 21))" by (rule vlq_repr_init [OF vb(4)])
  then have "vlq_repr v 14 14 (vlq_shift (vlq_init (vlq_mid v 21)) (vlq_mid v 14))"
    by (rule vlq_repr_step' [OF _ _ vb(3)]) simp_all
  then have "vlq_repr v 7 21
      (vlq_shift (vlq_shift (vlq_init (vlq_mid v 21)) (vlq_mid v 14)) (vlq_mid v 7))"
    by (rule vlq_repr_step' [OF _ _ vb(2)]) simp_all
  then have "vlq_repr v 0 (26 + 2)
      (vlq_shift (vlq_shift (vlq_shift (vlq_init (vlq_mid v 21)) (vlq_mid v 14)) (vlq_mid v 7))
         (vlq_last v))"
    by (rule vlq_repr_step' [OF _ _ vb(1)]) simp_all
  then show ?thesis using assms by (rule vlq_repr_final_range)
qed

lemma dec5:
  "vlq_shift (vlq_shift (vlq_shift (vlq_shift (vlq_init (vlq_top v)) (vlq_mid v 21))
      (vlq_mid v 14)) (vlq_mid v 7)) (vlq_last v) = v"
proof -
  have "vlq_repr v 28 7 (vlq_init (vlq_top v))" by (rule vlq_repr_init [OF vb(5)])
  then have "vlq_repr v 21 14 (vlq_shift (vlq_init (vlq_top v)) (vlq_mid v 21))"
    by (rule vlq_repr_step' [OF _ _ vb(4)]) simp_all
  then have "vlq_repr v 14 21 (vlq_shift (vlq_shift (vlq_init (vlq_top v)) (vlq_mid v 21))
      (vlq_mid v 14))"
    by (rule vlq_repr_step' [OF _ _ vb(3)]) simp_all
  then have "vlq_repr v 7 28 (vlq_shift (vlq_shift (vlq_shift (vlq_init (vlq_top v))
      (vlq_mid v 21)) (vlq_mid v 14)) (vlq_mid v 7))"
    by (rule vlq_repr_step' [OF _ _ vb(2)]) simp_all
  then have "vlq_repr v 0 35 (vlq_shift (vlq_shift (vlq_shift (vlq_shift (vlq_init (vlq_top v))
      (vlq_mid v 21)) (vlq_mid v 14)) (vlq_mid v 7)) (vlq_last v))"
    by (rule vlq_repr_step' [OF _ _ vb(1)]) simp_all
  then show ?thesis by (rule vlq_repr_final_full)
qed

lemma parse_int_encode_int:
  "parse_int (pre @ encode_int v @ rest) (length pre) = Inr (v, length pre + length (encode_int v))"
proof -
  consider (f4) "sint v < 3 * 2 ^ 5 \<and> sint v \<ge> - (2 ^ 5)"
    | (f3) "\<not> (sint v < 3 * 2 ^ 5 \<and> sint v \<ge> - (2 ^ 5))" "sint v < 3 * 2 ^ 12 \<and> sint v \<ge> - (2 ^ 12)"
    | (f2) "\<not> (sint v < 3 * 2 ^ 5 \<and> sint v \<ge> - (2 ^ 5))" "\<not> (sint v < 3 * 2 ^ 12 \<and> sint v \<ge> - (2 ^ 12))"
        "sint v < 3 * 2 ^ 19 \<and> sint v \<ge> - (2 ^ 19)"
    | (f1) "\<not> (sint v < 3 * 2 ^ 5 \<and> sint v \<ge> - (2 ^ 5))" "\<not> (sint v < 3 * 2 ^ 12 \<and> sint v \<ge> - (2 ^ 12))"
        "\<not> (sint v < 3 * 2 ^ 19 \<and> sint v \<ge> - (2 ^ 19))" "sint v < 3 * 2 ^ 26 \<and> sint v \<ge> - (2 ^ 26)"
    | (f0) "\<not> (sint v < 3 * 2 ^ 5 \<and> sint v \<ge> - (2 ^ 5))" "\<not> (sint v < 3 * 2 ^ 12 \<and> sint v \<ge> - (2 ^ 12))"
        "\<not> (sint v < 3 * 2 ^ 19 \<and> sint v \<ge> - (2 ^ 19))" "\<not> (sint v < 3 * 2 ^ 26 \<and> sint v \<ge> - (2 ^ 26))"
    by blast
  then show ?thesis
  proof cases
    case f4
    then have e: "encode_int v = [] @ [vlq_last v]" by (simp only: encode_int_cases if_True if_False simp_thms append_Nil append_Cons)
    show ?thesis unfolding e using parse_int_run [of "[]" "vlq_last v" pre rest] dec1 [of v] f4
      by (simp add: bit7)
  next
    case f3
    then have e: "encode_int v = [vlq_mid v 7] @ [vlq_last v]"
      by (simp only: encode_int_cases if_True if_False simp_thms append_Nil append_Cons)
    show ?thesis unfolding e using parse_int_run [of "[vlq_mid v 7]" "vlq_last v" pre rest] dec2 [of v] f3
      by (simp add: bit7)
  next
    case f2
    then have e: "encode_int v = [vlq_mid v 14, vlq_mid v 7] @ [vlq_last v]"
      by (simp only: encode_int_cases if_True if_False simp_thms append_Nil append_Cons)
    show ?thesis unfolding e
      using parse_int_run [of "[vlq_mid v 14, vlq_mid v 7]" "vlq_last v" pre rest] dec3 [of v] f2
      by (simp add: bit7)
  next
    case f1
    then have e: "encode_int v = [vlq_mid v 21, vlq_mid v 14, vlq_mid v 7] @ [vlq_last v]"
      by (simp only: encode_int_cases if_True if_False simp_thms append_Nil append_Cons)
    show ?thesis unfolding e
      using parse_int_run [of "[vlq_mid v 21, vlq_mid v 14, vlq_mid v 7]" "vlq_last v" pre rest]
        dec4 [of v] f1
      by (simp add: bit7)
  next
    case f0
    then have e: "encode_int v = [vlq_top v, vlq_mid v 21, vlq_mid v 14, vlq_mid v 7] @ [vlq_last v]"
      by (simp only: encode_int_cases if_True if_False simp_thms append_Nil append_Cons)
    show ?thesis unfolding e
      using parse_int_run [of "[vlq_top v, vlq_mid v 21, vlq_mid v 14, vlq_mid v 7]" "vlq_last v" pre rest]
        dec5 [of v]
      by (simp add: bit7)
  qed
qed

section \<open>Round trip and boundary values of the VLQ codec\<close>

text \<open>
  C2. VLQ round-trip: for every 32-bit value \<open>v\<close>, wherever the bytes written by
  \<open>encode_int v\<close> lie in a buffer (after any bytes \<open>pre\<close>, before any bytes \<open>rest\<close>),
  \<open>parse_int\<close> started at their first byte returns exactly \<open>v\<close>, and its cursor stops
  immediately after the last byte that \<open>encode_int\<close> wrote.
\<close>

theorem vlq_roundtrip:
  "parse_int (pre @ encode_int v @ rest) (length pre)
     = Inr (v, length pre + length (encode_int v))"
  by (rule parse_int_encode_int)

theorem vlq_roundtrip_witness:
  "parse_int ([0x07] @ encode_int 0x12345 @ [0xAA, 0x7E]) (length [0x07 :: u8])
     = Inr (0x12345, length [0x07 :: u8] + length (encode_int 0x12345))"
  using vlq_roundtrip [of "[0x07]" "0x12345" "[0xAA, 0x7E]"] by simp

lemma encode_int_boundary:
  "encode_int 0x00000000 = [0x00]"
  "encode_int 0x0000001F = [0x1F]"
  "encode_int 0x00000020 = [0x20]"
  "encode_int 0x7FFFFFFF = [0x87, 0xFF, 0xFF, 0xFF, 0x7F]"
  "encode_int 0x80000000 = [0x88, 0x80, 0x80, 0x80, 0x00]"
  "encode_int 0xFFFFFFFF = [0x7F]"
  by (simp_all add: encode_int_def Let_def drop_bit_eq_div)

text \<open>
  C3, as the spec states it, fails at \<open>0x00000020\<close>: \<open>encode_int\<close> takes the one-byte
  branch for every signed value from \<open>-32\<close> up to \<open>95\<close>, so \<open>0x20\<close> is encoded in one byte,
  not in two.
\<close>

theorem vlq_boundary_0x20_counterexample:
  "\<not> (length (encode_int 0x00000020) = 2)"
  by (simp add: encode_int_boundary)

text \<open>
  C3, amended. \<open>encode_int\<close> produces exactly 1 byte for \<open>0x00000000\<close>, 1 byte for
  \<open>0x0000001F\<close>, 1 byte for \<open>0x00000020\<close>, 5 bytes for \<open>0x7FFFFFFF\<close>, 5 bytes for
  \<open>0x80000000\<close> and 1 byte for \<open>0xFFFFFFFF\<close>, and each of these values round-trips
  through \<open>parse_int\<close>.
\<close>

theorem vlq_boundary_lengths:
  "length (encode_int 0x00000000) = 1 \<and> parse_int (encode_int 0x00000000) 0 = Inr (0x00000000, 1)
   \<and> length (encode_int 0x0000001F) = 1 \<and> parse_int (encode_int 0x0000001F) 0 = Inr (0x0000001F, 1)
   \<and> length (encode_int 0x00000020) = 1 \<and> parse_int (encode_int 0x00000020) 0 = Inr (0x00000020, 1)
   \<and> length (encode_int 0x7FFFFFFF) = 5 \<and> parse_int (encode_int 0x7FFFFFFF) 0 = Inr (0x7FFFFFFF, 5)
   \<and> length (encode_int 0x80000000) = 5 \<and> parse_int (encode_int 0x80000000) 0 = Inr (0x80000000, 5)
   \<and> length (encode_int 0xFFFFFFFF) = 1 \<and> parse_int (encode_int 0xFFFFFFFF) 0 = Inr (0xFFFFFFFF, 1)"
proof -
  have rt: "parse_int (encode_int v) 0 = Inr (v, length (encode_int v))" for v
    using parse_int_encode_int [of "[]" v "[]"] by simp
  have len: "length (encode_int 0x00000000) = 1" "length (encode_int 0x0000001F) = 1"
    "length (encode_int 0x00000020) = 1" "length (encode_int 0x7FFFFFFF) = 5"
    "length (encode_int 0x80000000) = 5" "length (encode_int 0xFFFFFFFF) = 1"
    by (simp_all add: encode_int_boundary)
  show ?thesis
    using rt [of "0x00000000"] rt [of "0x0000001F"] rt [of "0x00000020"]
      rt [of "0x7FFFFFFF"] rt [of "0x80000000"] rt [of "0xFFFFFFFF"]
    by (simp only: len simp_thms)
qed

section \<open>Lemmas on framing\<close>

lemma crc16_loop_append:
  "crc16_loop c (xs @ ys) (length xs) = crc16_loop c xs (length xs)"
  by (induction xs arbitrary: c) simp_all

lemma msgcrc_be:
  "msgcrc buf msglen
     = push_bit 8 (ucast (buf ! (unat msglen - 3))) OR ucast (buf ! (unat msglen - 3 + 1))"
proof (rule bit_word_eqI)
  fix k assume "k < LENGTH(16)"
  then have k: "k < 16" by simp
  have m: "min (k - 8) 7 = k - 8" using k by simp
  show "bit (msgcrc buf msglen) k
      = bit (push_bit 8 (ucast (buf ! (unat msglen - 3))) OR ucast (buf ! (unat msglen - 3 + 1)) :: u16) k"
    using k by (auto simp add: msgcrc_def MESSAGE_TRAILER_CRC_def bit_simps m)
qed

lemma crc_bytes_join:
  "push_bit 8 (ucast (ucast (drop_bit 8 crc) :: u8)) OR ucast (ucast crc :: u8) = (crc :: u16)"
proof (rule bit_word_eqI)
  fix k assume "k < LENGTH(16)"
  then have k: "k < 16" by simp
  show "bit (push_bit 8 (ucast (ucast (drop_bit 8 crc) :: u8)) OR ucast (ucast crc :: u8) :: u16) k
      = bit crc k"
    using k by (auto simp add: bit_simps)
qed

lemma unat_be16:
  "unat (push_bit 8 (ucast (h :: u8)) OR ucast (l :: u8) :: u16) = 256 * unat h + unat l"
proof -
  have h: "unat h < 2 ^ 8" and l: "unat l < 2 ^ 8"
    using unsigned_less [of h] unsigned_less [of l] by simp_all
  have h16: "take_bit 16 (unat h) = unat h" and l16: "take_bit 16 (unat l) = unat l"
    using h l by (simp_all add: take_bit_nat_eq_self)
  have "push_bit 8 (unat h) < 2 ^ 16" using h by (simp add: push_bit_eq_mult)
  then have p16: "take_bit 16 (push_bit 8 (unat h)) = push_bit 8 (unat h)"
    by (simp add: take_bit_nat_eq_self)
  have "unat (push_bit 8 (ucast h) OR ucast l :: u16) = push_bit 8 (unat h) OR unat l"
    by (simp add: unsigned_or_eq unsigned_push_bit_eq unsigned_ucast_eq h16 l16 p16)
  also have "\<dots> = push_bit 8 (unat h) + unat l"
  proof -
    have "take_bit 8 (unat l) = unat l" using l by (simp add: take_bit_nat_eq_self)
    then have "push_bit 8 (unat h) AND unat l = push_bit 8 (unat h) AND take_bit 8 (unat l)"
      by simp
    also have "\<dots> = 0" by (rule bit_eqI) (auto simp add: bit_simps)
    finally show ?thesis by (simp add: disjunctive_add_eq_or)
  qed
  finally show ?thesis by (simp add: push_bit_eq_mult)
qed

lemma message_frame_Nil:
  "message_frame seq [] =
     [5, seq, ucast (drop_bit 8 (crc16_ccitt [5, seq] 2)), ucast (crc16_ccitt [5, seq] 2),
      MESSAGE_SYNC]"
  by (simp add: message_frame_def Let_def MESSAGE_HEADER_SIZE_def MESSAGE_TRAILER_SIZE_def)

lemma sendf_no_payload:
  assumes "max_size cp = 0"
  shows "sendf cp args s = Inr (send_empty s)"
proof (cases "MESSAGE_MIN \<le> out_free s")
  case True
  then show ?thesis
    using assms
    by (simp add: sendf_def send_empty_def console_get_output_def console_push_output_def
        message_frame_Nil MESSAGE_POS_LEN_def MESSAGE_MIN_def Let_def)
next
  case False
  then show ?thesis
    using assms by (simp add: sendf_def send_empty_def console_get_output_def)
qed

lemma sendf_empty: "sendf encoder_empty [] s = Inr (send_empty s)"
  by (rule sendf_no_payload) (simp add: encoder_empty_def)

lemma sendf_keeps_state:
  assumes "sendf cp args s = Inr s'"
  shows "next_sequence s' = next_sequence s" "sync_state s' = sync_state s"
    "input_buf s' = input_buf s" "sched_is_shutdown s' = sched_is_shutdown s"
    "sched_shutdown_reason s' = sched_shutdown_reason s"
  using assms
  by (auto simp add: sendf_def console_push_output_def Let_def split: if_splits sum.splits)

lemma send_empty_simps [simp]:
  "next_sequence (send_empty s) = next_sequence s"
  "sync_state (send_empty s) = sync_state s"
  "input_buf (send_empty s) = input_buf s"
  "sched_is_shutdown (send_empty s) = sched_is_shutdown s"
  "sched_shutdown_reason (send_empty s) = sched_shutdown_reason s"
  by (simp_all add: send_empty_def)

lemma send_empty_output:
  "output_frames (send_empty s) =
     (if MESSAGE_MIN \<le> out_free s
      then output_frames s @ [message_frame (next_sequence s) [] ] else output_frames s)"
  by (simp add: send_empty_def)

lemma cgm_nak_eq: "cgm_nak s = Inr (None, send_empty s)"
  by (simp add: cgm_nak_def sendf_empty)

lemma cgm_valid_eq:
  "cgm_valid buf msglen msgseq s =
     (if msgseq \<noteq> next_sequence s
      then Inr (None, send_empty (console_pop_input (unat msglen)
                  (s\<lparr>sync_state := sync_state s AND NOT CF_NEED_VALID\<rparr>)))
      else Inr (Some buf, send_empty
                  (s\<lparr>sync_state := sync_state s AND NOT CF_NEED_VALID,
                     next_sequence := ((msgseq + 1) AND MESSAGE_SEQ_MASK) OR MESSAGE_DEST\<rparr>)))"
  by (simp add: cgm_valid_def cgm_nak_eq sendf_empty Let_def)

lemma cgm_need_sync_eq:
  "cgm_need_sync buf s =
     (let s1 = (case memchr buf MESSAGE_SYNC of
                  Some next_sync \<Rightarrow>
                    console_pop_input (next_sync + 1)
                      (s\<lparr>sync_state := sync_state s AND NOT CF_NEED_SYNC\<rparr>)
                | None \<Rightarrow> console_pop_input (length buf) s)
      in if sync_state s1 AND CF_NEED_VALID \<noteq> 0 then Inr (None, s1)
         else Inr (None, send_empty (s1\<lparr>sync_state := sync_state s1 OR CF_NEED_VALID\<rparr>)))"
  by (simp add: cgm_need_sync_def cgm_nak_eq Let_def)

lemma cgm_need_sync_path:
  assumes "console_get_input s \<noteq> []" "sync_state s AND CF_NEED_SYNC \<noteq> 0"
  shows "command_get_message s = cgm_need_sync (console_get_input s) s"
  using assms by (simp add: command_get_message_def Let_def)

lemma cgm_short_path:
  assumes "sync_state s AND CF_NEED_SYNC = 0 \<or> console_get_input s = []"
    and "length (console_get_input s) < MESSAGE_MIN"
  shows "command_get_message s = Inr (None, s)"
  using assms by (auto simp add: command_get_message_def Let_def)

lemma cgm_bad_len_path:
  assumes "sync_state s AND CF_NEED_SYNC = 0" "MESSAGE_MIN \<le> length (console_get_input s)"
    and "unat (console_get_input s ! MESSAGE_POS_LEN) < MESSAGE_MIN
         \<or> MESSAGE_MAX < unat (console_get_input s ! MESSAGE_POS_LEN)"
  shows "command_get_message s = cgm_error (console_get_input s) s"
  using assms by (auto simp add: command_get_message_def Let_def)

lemma cgm_framed_path:
  assumes "cgm_framed s"
  shows "command_get_message s =
     (let buf = console_get_input s; msglen = buf ! MESSAGE_POS_LEN
      in if crc16_ccitt buf (msglen - of_nat MESSAGE_TRAILER_SIZE) = msgcrc buf msglen
         then cgm_valid buf msglen (buf ! MESSAGE_POS_SEQ) s
         else cgm_error buf s)"
  using assms by (auto simp add: cgm_framed_def command_get_message_def Let_def)

lemma cgm_unframed_path:
  assumes "\<not> cgm_framed s"
  shows "command_get_message s =
     (let buf = console_get_input s; msglen = buf ! MESSAGE_POS_LEN
      in if buf \<noteq> [] \<and> sync_state s AND CF_NEED_SYNC \<noteq> 0 then cgm_need_sync buf s
         else if length buf < MESSAGE_MIN then Inr (None, s)
         else if unat msglen < MESSAGE_MIN \<or> unat msglen > MESSAGE_MAX then cgm_error buf s
         else if (buf ! MESSAGE_POS_SEQ) AND NOT MESSAGE_SEQ_MASK \<noteq> MESSAGE_DEST
           then cgm_error buf s
         else if length buf < unat msglen then Inr (None, s)
         else cgm_error buf s)"
  using assms
  by (auto simp add: cgm_framed_def command_get_message_def Let_def MESSAGE_MIN_def)

lemma message_frame_split:
  "message_frame seq p =
     ([of_nat (length p + 5), seq] @ p)
     @ [ucast (drop_bit 8 (crc16_loop 0xffff ([of_nat (length p + 5), seq] @ p)
                             (unat (of_nat (length p + 2) :: u8)))),
        ucast (crc16_loop 0xffff ([of_nat (length p + 5), seq] @ p)
                 (unat (of_nat (length p + 2) :: u8))),
        MESSAGE_SYNC]"
  by (simp add: message_frame_def Let_def MESSAGE_HEADER_SIZE_def MESSAGE_TRAILER_SIZE_def
      crc16_ccitt_def add.commute)

lemma unat_of_nat_u8: "n < 256 \<Longrightarrow> unat (of_nat n :: u8) = n"
  by (simp add: unat_of_nat)

lemma message_frame_length: "length (message_frame seq p) = length p + 5"
  by (simp add: message_frame_split)

lemma message_frame_nth:
  "message_frame seq p ! 0 = of_nat (length p + 5)"
  "message_frame seq p ! 1 = seq"
  "message_frame seq p ! Suc 0 = seq"
  "message_frame seq p ! (length p + 4) = MESSAGE_SYNC"
  by (simp_all add: message_frame_split nth_append)

lemma message_frame_payload:
  "take (length p) (drop 2 (message_frame seq p @ rest)) = p"
  by (simp add: message_frame_split)

lemma message_frame_crc:
  assumes "length p \<le> 250"
  shows "crc16_ccitt (message_frame seq p @ rest) (of_nat (length p + 5) - 3)
           = msgcrc (message_frame seq p @ rest) (of_nat (length p + 5))"
proof -
  define L :: u8 where "L = of_nat (length p + 5)"
  define body where "body = [L, seq] @ p"
  define crc where "crc = crc16_loop 0xffff body (length p + 2)"
  define trail where "trail = ucast (drop_bit 8 crc) # ucast crc # MESSAGE_SYNC # rest"
  have u2: "unat (of_nat (length p + 2) :: u8) = length p + 2"
    and u5: "unat (of_nat (length p + 5) :: u8) = length p + 5"
    using assms by (intro unat_of_nat_u8, simp)+
  have len_body: "length body = length p + 2" by (simp add: body_def)
  have sub: "(of_nat (length p + 5) :: u8) - 3 = of_nat (length p + 2)" by simp
  have frame: "message_frame seq p @ rest = body @ trail"
    by (simp only: message_frame_split u2 append_assoc body_def crc_def trail_def L_def
        append_Cons append_Nil)
  have "crc16_ccitt (message_frame seq p @ rest) (of_nat (length p + 5) - 3)
      = crc16_loop 0xffff (body @ trail) (length body)"
    by (simp only: sub crc16_ccitt_def u2 frame len_body)
  also have "\<dots> = crc16_loop 0xffff body (length body)" by (rule crc16_loop_append)
  finally have lhs: "crc16_ccitt (message_frame seq p @ rest) (of_nat (length p + 5) - 3) = crc"
    by (simp only: crc_def len_body)
  have "(body @ trail) ! (length body) = ucast (drop_bit 8 crc)"
    unfolding trail_def by (rule nth_append_length)
  then have hi: "(message_frame seq p @ rest) ! (length p + 5 - 3) = ucast (drop_bit 8 crc)"
    by (simp add: frame len_body)
  have "(body @ trail) ! (length body + 1) = trail ! 1" by (rule nth_append_length_plus)
  then have lo: "(message_frame seq p @ rest) ! (length p + 5 - 3 + 1) = ucast crc"
    by (simp add: frame len_body trail_def)
  have "msgcrc (message_frame seq p @ rest) (of_nat (length p + 5)) = crc"
    unfolding msgcrc_be u5 hi lo by (rule crc_bytes_join)
  with lhs show ?thesis by simp
qed

lemma message_frame_input:
  assumes "length p \<le> 59" and "input_buf s = message_frame seq p @ rest"
  shows "console_get_input s = message_frame seq p @ take (250 - length p) rest"
  using assms by (simp add: console_get_input_def message_frame_length)

lemma message_frame_crc_ok:
  assumes len: "length p \<le> 59" and seq: "seq AND NOT MESSAGE_SEQ_MASK = MESSAGE_DEST"
    and sync: "sync_state s AND CF_NEED_SYNC = 0"
    and inp: "input_buf s = message_frame seq p @ rest"
  shows "cgm_crc_ok s"
proof -
  define buf where "buf = message_frame seq p @ take (250 - length p) rest"
  define L :: u8 where "L = of_nat (length p + 5)"
  have cgi: "console_get_input s = buf"
    unfolding buf_def using len inp by (rule message_frame_input)
  have uL: "unat L = length p + 5"
    unfolding L_def using len by (intro unat_of_nat_u8) simp
  have n0: "buf ! 0 = L" and n1: "buf ! Suc 0 = seq"
    and nl: "buf ! (length p + 4) = MESSAGE_SYNC"
    unfolding L_def buf_def
    by (simp_all only: nth_append message_frame_length message_frame_nth) simp_all
  have nl': "buf ! (4 + length p) = MESSAGE_SYNC" using nl by (simp add: add.commute)
  have lb: "length p + 5 \<le> length buf" by (simp add: buf_def message_frame_length)
  have framed: "cgm_framed s"
    using len seq sync lb
    by (simp add: cgm_framed_def cgi Let_def MESSAGE_POS_LEN_def MESSAGE_POS_SEQ_def n0 n1 uL
        MESSAGE_MIN_def MESSAGE_MAX_def MESSAGE_TRAILER_SYNC_def nl')
  have "crc16_ccitt buf (L - 3) = msgcrc buf L"
    unfolding buf_def L_def using len by (intro message_frame_crc) simp
  then show ?thesis
    using framed
    by (simp add: cgm_crc_ok_def cgi Let_def MESSAGE_POS_LEN_def n0 MESSAGE_TRAILER_SIZE_def)
qed

lemma cgm_crc_ok_path:
  assumes "cgm_crc_ok s"
  shows "command_get_message s =
     cgm_valid (console_get_input s) (console_get_input s ! MESSAGE_POS_LEN)
       (console_get_input s ! MESSAGE_POS_SEQ) s"
  using assms cgm_framed_path [of s] by (simp add: cgm_crc_ok_def Let_def)

section \<open>Empty frames and the CRC comparison\<close>

text \<open>
  C10. Empty-payload (ACK/NAK) frame shape: for every encoder whose \<open>max_size\<close> is 0,
  \<open>_sendf\<close> skips the encoding loop, so no \<open>msg_id\<close> byte is written, and, when the
  transport reservation succeeds, it commits a frame of exactly 5 bytes: LEN = 5, SEQ equal
  to the current \<open>next_sequence\<close>, the big-endian CRC of these two bytes, and \<open>0x7E\<close>;
  when the reservation fails nothing changes. \<open>_sendf\<close> itself never modifies
  \<open>next_sequence\<close>, whatever the encoder.
\<close>

theorem sendf_empty_frame_shape:
  "(max_size cp = 0 \<longrightarrow>
      sendf cp args s =
        Inr (if console_get_output MESSAGE_MIN s
             then s\<lparr>output_frames := output_frames s @
                       [ [5, next_sequence s,
                         ucast (drop_bit 8 (crc16_ccitt [5, next_sequence s] 2)),
                         ucast (crc16_ccitt [5, next_sequence s] 2), 0x7E] ],
                    out_free := out_free s - 5\<rparr>
             else s))
   \<and> (\<forall>cp' args' s'. sendf cp' args' s = Inr s' \<longrightarrow> next_sequence s' = next_sequence s)"
proof (intro conjI impI allI)
  assume "max_size cp = 0"
  then have "sendf cp args s = Inr (send_empty s)" by (rule sendf_no_payload)
  then show "sendf cp args s =
        Inr (if console_get_output MESSAGE_MIN s
             then s\<lparr>output_frames := output_frames s @
                       [ [5, next_sequence s,
                         ucast (drop_bit 8 (crc16_ccitt [5, next_sequence s] 2)),
                         ucast (crc16_ccitt [5, next_sequence s] 2), 0x7E] ],
                    out_free := out_free s - 5\<rparr>
             else s)"
    by (simp add: send_empty_def console_get_output_def message_frame_Nil MESSAGE_MIN_def
        MESSAGE_SYNC_def)
next
  fix cp' args' s'
  assume "sendf cp' args' s = Inr s'"
  then show "next_sequence s' = next_sequence s" by (rule sendf_keeps_state)
qed

theorem sendf_empty_frame_shape_witness:
  "max_size encoder_empty = 0
   \<and> sendf encoder_empty [] (mcu_boot [] 100)
       = Inr ((mcu_boot [] 100)\<lparr>output_frames := [ [5, 0x10, 0x9E, 0x81, 0x7E] ], out_free := 95\<rparr>)
   \<and> next_sequence ((mcu_boot [] 100)\<lparr>output_frames := [ [5, 0x10, 0x9E, 0x81, 0x7E] ],
                                         out_free := 95\<rparr>) = next_sequence (mcu_boot [] 100)"
proof -
  have m: "max_size encoder_empty = 0" by (simp add: encoder_empty_def)
  have room: "console_get_output MESSAGE_MIN (mcu_boot [] 100)"
    by (simp add: console_get_output_def MESSAGE_MIN_def mcu_boot_def)
  have crc: "crc16_ccitt [5, 0x10] 2 = 0x9E81" by code_simp
  have hi: "(ucast (drop_bit 8 (0x9E81 :: u16)) :: u8) = 0x9E" by code_simp
  have lo: "(ucast (0x9E81 :: u16) :: u8) = 0x81" by code_simp
  note t = sendf_empty_frame_shape [of encoder_empty "[]" "mcu_boot [] 100"]
  from t m have
    "sendf encoder_empty [] (mcu_boot [] 100)
       = Inr ((mcu_boot [] 100)\<lparr>output_frames := [ [5, 0x10, 0x9E, 0x81, 0x7E] ], out_free := 95\<rparr>)"
    using room by (simp add: mcu_boot_def MESSAGE_DEST_def crc hi lo)
  moreover from t this have
    "next_sequence ((mcu_boot [] 100)\<lparr>output_frames := [ [5, 0x10, 0x9E, 0x81, 0x7E] ],
        out_free := 95\<rparr>) = next_sequence (mcu_boot [] 100)"
    by blast
  ultimately show ?thesis using m by simp
qed

text \<open>
  C7. CRC comparison semantics: for every call of \<open>command_get_message\<close> that reaches
  the CRC comparison (step 7), the value \<open>msgcrc\<close> that the code builds from the two
  trailer bytes at offsets \<open>msglen-3\<close> and \<open>msglen-2\<close> is their big-endian unsigned
  16-bit value, and the call goes on as for a valid frame exactly when that value equals
  \<open>crc16_ccitt\<close> over \<open>buf[0..msglen-3]\<close>, and takes the fail path otherwise. This holds
  also when the stored high CRC byte has bit 7 set: the sign extension of the signed
  \<open>char\<close> does not survive the truncation to \<open>uint16_t\<close>.
\<close>

theorem crc_comparison_big_endian:
  assumes "cgm_framed s"
  shows "let buf = console_get_input s; msglen = buf ! MESSAGE_POS_LEN;
             hi = buf ! (unat msglen - 3); lo = buf ! (unat msglen - 2)
         in unat (msgcrc buf msglen) = 256 * unat hi + unat lo
            \<and> command_get_message s =
                (if unat (crc16_ccitt buf (msglen - 3)) = 256 * unat hi + unat lo
                 then cgm_valid buf msglen (buf ! MESSAGE_POS_SEQ) s
                 else cgm_error buf s)"
proof -
  define buf where "buf = console_get_input s"
  define msglen where "msglen = buf ! MESSAGE_POS_LEN"
  have "5 \<le> unat msglen"
    using assms by (simp add: cgm_framed_def Let_def buf_def msglen_def MESSAGE_MIN_def)
  then have idx: "unat msglen - 3 + 1 = unat msglen - 2" by simp
  have be: "unat (msgcrc buf msglen)
      = 256 * unat (buf ! (unat msglen - 3)) + unat (buf ! (unat msglen - 2))"
    by (simp only: msgcrc_be unat_be16 idx)
  have eq: "(crc16_ccitt buf (msglen - 3) = msgcrc buf msglen)
      \<longleftrightarrow> unat (crc16_ccitt buf (msglen - 3))
            = 256 * unat (buf ! (unat msglen - 3)) + unat (buf ! (unat msglen - 2))"
    by (simp only: be [symmetric] word_unat_eq_iff)
  have "command_get_message s =
      (if crc16_ccitt buf (msglen - 3) = msgcrc buf msglen
       then cgm_valid buf msglen (buf ! MESSAGE_POS_SEQ) s
       else cgm_error buf s)"
    using cgm_framed_path [OF assms]
    by (simp add: Let_def buf_def msglen_def MESSAGE_TRAILER_SIZE_def)
  then show ?thesis
    using be by (simp only: Let_def buf_def [symmetric] msglen_def [symmetric] eq)
qed

theorem crc_comparison_big_endian_witness:
  "cgm_framed (mcu_boot [5, 0x10, 0x9E, 0x81, 0x7E] 100)
   \<and> bit (console_get_input (mcu_boot [5, 0x10, 0x9E, 0x81, 0x7E] 100) ! (5 - 3)) 7
   \<and> (let buf = console_get_input (mcu_boot [5, 0x10, 0x9E, 0x81, 0x7E] 100);
           msglen = buf ! MESSAGE_POS_LEN;
           hi = buf ! (unat msglen - 3); lo = buf ! (unat msglen - 2)
       in unat (msgcrc buf msglen) = 256 * unat hi + unat lo
          \<and> command_get_message (mcu_boot [5, 0x10, 0x9E, 0x81, 0x7E] 100) =
              (if unat (crc16_ccitt buf (msglen - 3)) = 256 * unat hi + unat lo
               then cgm_valid buf msglen (buf ! MESSAGE_POS_SEQ)
                      (mcu_boot [5, 0x10, 0x9E, 0x81, 0x7E] 100)
               else cgm_error buf (mcu_boot [5, 0x10, 0x9E, 0x81, 0x7E] 100)))
   \<and> command_get_message (mcu_boot [5, 0x10, 0x9E, 0x81, 0x7E] 100)
       = Inr (Some [5, 0x10, 0x9E, 0x81, 0x7E],
              (mcu_boot [5, 0x10, 0x9E, 0x81, 0x7E] 100)
                \<lparr>next_sequence := 0x11, output_frames := [ [5, 0x11, 0x8F, 0x08, 0x7E] ],
                  out_free := 95\<rparr>)"
proof -
  have f: "cgm_framed (mcu_boot [5, 0x10, 0x9E, 0x81, 0x7E] 100)"
    by code_simp
  have b: "bit (console_get_input (mcu_boot [5, 0x10, 0x9E, 0x81, 0x7E] 100) ! (5 - 3)) 7"
    by code_simp
  have r: "command_get_message (mcu_boot [5, 0x10, 0x9E, 0x81, 0x7E] 100)
       = Inr (Some [5, 0x10, 0x9E, 0x81, 0x7E],
              (mcu_boot [5, 0x10, 0x9E, 0x81, 0x7E] 100)
                \<lparr>next_sequence := 0x11, output_frames := [ [5, 0x11, 0x8F, 0x08, 0x7E] ],
                  out_free := 95\<rparr>)"
    by code_simp
  from f b crc_comparison_big_endian [OF f] r show ?thesis by (intro conjI)
qed

section \<open>Lemmas on the fail path and the latches\<close>

lemma need_valid_bit: "need_valid s = bit (sync_state s) 1"
  using and_exp_eq_0_iff_not_bit [of "sync_state s" 1] by (simp add: need_valid_def CF_NEED_VALID_def)

lemma need_valid_updates [simp]:
  "need_valid (s\<lparr>sync_state := sync_state s AND NOT CF_NEED_SYNC\<rparr>) = need_valid s"
  "need_valid (s\<lparr>sync_state := sync_state s OR CF_NEED_SYNC\<rparr>) = need_valid s"
  "need_valid (s\<lparr>sync_state := (sync_state s OR CF_NEED_SYNC) AND NOT CF_NEED_SYNC\<rparr>) = need_valid s"
  "need_valid (s\<lparr>sync_state := x OR CF_NEED_VALID\<rparr>)"
  "\<not> need_valid (s\<lparr>sync_state := x AND NOT CF_NEED_VALID\<rparr>)"
  by (simp_all add: need_valid_bit CF_NEED_SYNC_def CF_NEED_VALID_def bit_simps)

lemma need_valid_other [simp]:
  "need_valid (console_pop_input n s) = need_valid s"
  "need_valid (send_empty s) = need_valid s"
  "need_valid (s\<lparr>input_buf := i\<rparr>) = need_valid s"
  "need_valid (s\<lparr>out_free := f\<rparr>) = need_valid s"
  "need_valid (s\<lparr>next_sequence := q\<rparr>) = need_valid s"
  by (simp_all add: need_valid_def console_pop_input_def)

lemma console_pop_input_simps [simp]:
  "next_sequence (console_pop_input n s) = next_sequence s"
  "sync_state (console_pop_input n s) = sync_state s"
  "output_frames (console_pop_input n s) = output_frames s"
  "out_free (console_pop_input n s) = out_free s"
  "input_buf (console_pop_input n s) = drop n (input_buf s)"
  by (simp_all add: console_pop_input_def)

lemma cgm_need_sync_effect:
  "\<exists>s'. cgm_need_sync buf s = Inr (None, s') \<and> next_sequence s' = next_sequence s
      \<and> need_valid s'
      \<and> output_frames s' =
          (if \<not> need_valid s \<and> MESSAGE_MIN \<le> out_free s
           then output_frames s @ [message_frame (next_sequence s) [] ] else output_frames s)"
proof -
  define s1 where "s1 = (case memchr buf MESSAGE_SYNC of
                  Some next_sync \<Rightarrow>
                    console_pop_input (next_sync + 1)
                      (s\<lparr>sync_state := sync_state s AND NOT CF_NEED_SYNC\<rparr>)
                | None \<Rightarrow> console_pop_input (length buf) s)"
  have s1: "need_valid s1 = need_valid s" "next_sequence s1 = next_sequence s"
    "output_frames s1 = output_frames s" "out_free s1 = out_free s"
    by (simp_all add: s1_def split: option.splits)
  have eq: "cgm_need_sync buf s =
      (if need_valid s1 then Inr (None, s1)
       else Inr (None, send_empty (s1\<lparr>sync_state := sync_state s1 OR CF_NEED_VALID\<rparr>)))"
    by (simp add: cgm_need_sync_eq Let_def s1_def [symmetric] need_valid_def)
  show ?thesis
  proof (cases "need_valid s")
    case True
    then show ?thesis using eq s1 by simp
  next
    case False
    then show ?thesis using eq s1 by (simp add: send_empty_output)
  qed
qed

lemma cgm_error_sync: "buf ! 0 = MESSAGE_SYNC \<Longrightarrow> cgm_error buf s = Inr (None, console_pop_input 1 s)"
  by (simp add: cgm_error_def)

lemma cgm_error_effect:
  "\<exists>s'. cgm_error buf s = Inr (None, s') \<and> next_sequence s' = next_sequence s
      \<and> (need_valid s \<longrightarrow> need_valid s')
      \<and> (output_frames s' = output_frames s
          \<or> (\<not> need_valid s \<and> need_valid s'
              \<and> output_frames s' = output_frames s @ [message_frame (next_sequence s) [] ]))"
proof (cases "buf ! 0 = MESSAGE_SYNC")
  case True
  then show ?thesis by (simp add: cgm_error_sync)
next
  case False
  obtain s' where "cgm_need_sync buf (s\<lparr>sync_state := sync_state s OR CF_NEED_SYNC\<rparr>) = Inr (None, s')"
    "next_sequence s' = next_sequence s" "need_valid s'"
    "output_frames s' =
          (if \<not> need_valid s \<and> MESSAGE_MIN \<le> out_free s
           then output_frames s @ [message_frame (next_sequence s) [] ] else output_frames s)"
    using cgm_need_sync_effect [of buf "s\<lparr>sync_state := sync_state s OR CF_NEED_SYNC\<rparr>"]
    by auto
  then show ?thesis using False by (auto simp add: cgm_error_def)
qed

lemma cgm_not_ok_effect:
  assumes "\<not> cgm_crc_ok s"
  shows "\<exists>s'. command_get_message s = Inr (None, s') \<and> next_sequence s' = next_sequence s
      \<and> (need_valid s \<longrightarrow> need_valid s')
      \<and> (output_frames s' = output_frames s
          \<or> (\<not> need_valid s \<and> need_valid s'
              \<and> output_frames s' = output_frames s @ [message_frame (next_sequence s) [] ]))"
proof (cases "cgm_framed s")
  case True
  then have "command_get_message s = cgm_error (console_get_input s) s"
    using assms cgm_framed_path [of s] by (simp add: cgm_crc_ok_def Let_def)
  then show ?thesis using cgm_error_effect [of "console_get_input s" s] by simp
next
  case False
  note e = cgm_error_effect [of "console_get_input s" s]
  note n = cgm_need_sync_effect [of "console_get_input s" s]
  show ?thesis
    unfolding cgm_unframed_path [OF False] Let_def
    using e n by (auto split: if_splits)
qed

section \<open>Lemmas on the sequence byte\<close>

lemma seq_mask_eq: "MESSAGE_SEQ_MASK = mask 4"
  by (simp add: MESSAGE_SEQ_MASK_def mask_eq_exp_minus_1)

lemma dest_eq: "MESSAGE_DEST = push_bit 4 1"
  by (simp add: MESSAGE_DEST_def)

lemma bit_seq_mask: "bit MESSAGE_SEQ_MASK k \<longleftrightarrow> k < 4"
  by (auto simp add: seq_mask_eq bit_simps)

lemma bit_dest: "bit MESSAGE_DEST k \<longleftrightarrow> k = 4"
proof -
  have e: "MESSAGE_DEST = 2 ^ 4" by (simp add: MESSAGE_DEST_def)
  show ?thesis unfolding e bit_exp_iff possible_bit_word by auto
qed

lemma seq_tag_of_dest_or:
  "(MESSAGE_DEST OR (y AND MESSAGE_SEQ_MASK)) AND NOT MESSAGE_SEQ_MASK = MESSAGE_DEST"
  by (rule bit_word_eqI) (auto simp add: bit_simps bit_seq_mask bit_dest)

lemma seq_low_of_dest_or:
  "(MESSAGE_DEST OR (y AND MESSAGE_SEQ_MASK)) AND MESSAGE_SEQ_MASK = y AND MESSAGE_SEQ_MASK"
  by (rule bit_word_eqI) (auto simp add: bit_simps bit_seq_mask bit_dest)

lemma seq_or_commute:
  "((y + 1) AND MESSAGE_SEQ_MASK) OR MESSAGE_DEST = MESSAGE_DEST OR ((y + 1) AND MESSAGE_SEQ_MASK)"
  by (rule or.commute)

lemma unat_seq_low: "unat ((y :: u8) AND MESSAGE_SEQ_MASK) = unat y mod 16"
proof -
  have "unat (take_bit 4 y) = take_bit 4 (unat y)" by (rule unsigned_take_bit_eq)
  also have "\<dots> = unat y mod 2 ^ 4" by (rule take_bit_eq_mod)
  finally have "unat (y AND mask 4) = unat y mod 2 ^ 4" by (simp only: take_bit_eq_mask)
  then show ?thesis by (simp add: seq_mask_eq)
qed

lemma unat_seq_succ:
  "unat (((y :: u8) + 1) AND MESSAGE_SEQ_MASK) = (unat (y AND MESSAGE_SEQ_MASK) + 1) mod 16"
proof -
  have "unat (y + 1) = (unat y + 1) mod 256" by (simp add: unat_word_ariths)
  then have "unat ((y + 1) AND MESSAGE_SEQ_MASK) = ((unat y + 1) mod 256) mod 16"
    by (simp only: unat_seq_low)
  also have "\<dots> = (unat y + 1) mod 16" by (simp add: mod_mod_cancel)
  also have "\<dots> = (unat y mod 16 + 1) mod 16" by (simp add: mod_simps)
  finally show ?thesis by (simp only: unat_seq_low)
qed

lemma seq_le_15:
  assumes "(seq :: u8) \<le> 15"
  shows "(MESSAGE_DEST OR seq) AND NOT MESSAGE_SEQ_MASK = MESSAGE_DEST"
    and "(MESSAGE_DEST OR seq) AND MESSAGE_SEQ_MASK = seq"
proof -
  have "seq < 2 ^ 4" using assms by (simp add: word_le_nat_alt word_less_nat_alt)
  then have "seq AND mask 4 = seq" by (rule less_mask_eq)
  then have s: "seq = seq AND MESSAGE_SEQ_MASK"
    by (simp only: seq_mask_eq)
  show "(MESSAGE_DEST OR seq) AND NOT MESSAGE_SEQ_MASK = MESSAGE_DEST"
    by (subst s) (rule seq_tag_of_dest_or)
  show "(MESSAGE_DEST OR seq) AND MESSAGE_SEQ_MASK = seq"
    using seq_low_of_dest_or [of seq] s by simp
qed

section \<open>Reception: sequence numbers, round trip and length bounds\<close>

text \<open>
  C4. Sequence-number state machine. Every call of \<open>command_get_message\<close> returns. It
  returns a message exactly when the frame at the head of the input passes every check up
  to and including the CRC comparison and its SEQ byte equals \<open>next_sequence\<close>; then
  \<open>next_sequence\<close> becomes \<open>0x10 | ((old SEQ + 1) & 0x0F)\<close>, that is, the sequence
  advances by 1 modulo 16 and the destination tag \<open>0x10\<close> is kept. On every other call
  (partial input, resynchronisation, invalid frame, or valid frame with a SEQ byte that
  differs from \<open>next_sequence\<close>) \<open>next_sequence\<close> is left unchanged.
\<close>

theorem next_sequence_state_machine:
  "\<exists>r s'. command_get_message s = Inr (r, s')
     \<and> (r \<noteq> None \<longleftrightarrow>
           cgm_crc_ok s \<and> console_get_input s ! MESSAGE_POS_SEQ = next_sequence s)
     \<and> (r \<noteq> None \<longrightarrow> r = Some (console_get_input s))
     \<and> next_sequence s' =
          (if r \<noteq> None then MESSAGE_DEST OR ((next_sequence s + 1) AND MESSAGE_SEQ_MASK)
           else next_sequence s)
     \<and> (r \<noteq> None \<longrightarrow>
           next_sequence s' AND NOT MESSAGE_SEQ_MASK = MESSAGE_DEST
           \<and> unat (next_sequence s' AND MESSAGE_SEQ_MASK)
               = (unat (next_sequence s AND MESSAGE_SEQ_MASK) + 1) mod 16)"
proof (cases "cgm_crc_ok s")
  case False
  then obtain s' where "command_get_message s = Inr (None, s')"
    "next_sequence s' = next_sequence s"
    using cgm_not_ok_effect [of s] by blast
  then show ?thesis using False by simp
next
  case True
  define buf where "buf = console_get_input s"
  define q where "q = next_sequence s"
  have path: "command_get_message s = cgm_valid buf (buf ! MESSAGE_POS_LEN) (buf ! MESSAGE_POS_SEQ) s"
    unfolding buf_def using True by (rule cgm_crc_ok_path)
  show ?thesis
  proof (cases "buf ! MESSAGE_POS_SEQ = next_sequence s")
    case False
    then show ?thesis
      using True path by (simp add: cgm_valid_eq buf_def)
  next
    case same: True
    have tag: "(MESSAGE_DEST OR ((q + 1) AND MESSAGE_SEQ_MASK)) AND NOT MESSAGE_SEQ_MASK
        = MESSAGE_DEST"
      by (rule seq_tag_of_dest_or)
    have low: "unat ((MESSAGE_DEST OR ((q + 1) AND MESSAGE_SEQ_MASK)) AND MESSAGE_SEQ_MASK)
        = (unat (q AND MESSAGE_SEQ_MASK) + 1) mod 16"
      by (simp only: seq_low_of_dest_or unat_seq_succ)
    have "command_get_message s =
        Inr (Some buf, send_empty
                  (s\<lparr>sync_state := sync_state s AND NOT CF_NEED_VALID,
                     next_sequence := MESSAGE_DEST OR ((q + 1) AND MESSAGE_SEQ_MASK)\<rparr>))"
      using path same by (simp add: cgm_valid_eq q_def or.commute)
    then show ?thesis
      using True same tag low by (simp add: buf_def q_def)
  qed
qed

theorem next_sequence_state_machine_witness:
  "command_get_message (mcu_boot (message_frame 0x10 [7, 42]) 100)
     = Inr (Some (message_frame 0x10 [7, 42]),
            (mcu_boot (message_frame 0x10 [7, 42]) 100)
              \<lparr>next_sequence := 0x11, output_frames := [message_frame 0x11 [] ], out_free := 95\<rparr>)
   \<and> command_get_message (mcu_boot (message_frame 0x1F [7, 42]) 100)
     = Inr (None,
            (mcu_boot [] 100)
              \<lparr>output_frames := [message_frame 0x10 [] ], out_free := 95\<rparr>)
   \<and> (\<exists>r s'. command_get_message (mcu_boot (message_frame 0x10 [7, 42]) 100) = Inr (r, s')
         \<and> r \<noteq> None \<and> next_sequence s' = 0x11)"
proof -
  have a: "command_get_message (mcu_boot (message_frame 0x10 [7, 42]) 100)
     = Inr (Some (message_frame 0x10 [7, 42]),
            (mcu_boot (message_frame 0x10 [7, 42]) 100)
              \<lparr>next_sequence := 0x11, output_frames := [message_frame 0x11 [] ], out_free := 95\<rparr>)"
    by code_simp
  have b: "command_get_message (mcu_boot (message_frame 0x1F [7, 42]) 100)
     = Inr (None,
            (mcu_boot [] 100)
              \<lparr>output_frames := [message_frame 0x10 [] ], out_free := 95\<rparr>)"
    by code_simp
  have n: "MESSAGE_DEST OR ((next_sequence (mcu_boot (message_frame 0x10 [7, 42]) 100) + 1)
              AND MESSAGE_SEQ_MASK) = 0x11"
    by code_simp
  from next_sequence_state_machine [of "mcu_boot (message_frame 0x10 [7, 42]) 100"]
  obtain r s' where c: "command_get_message (mcu_boot (message_frame 0x10 [7, 42]) 100) = Inr (r, s')"
    and d: "next_sequence s' =
          (if r \<noteq> None
           then MESSAGE_DEST OR ((next_sequence (mcu_boot (message_frame 0x10 [7, 42]) 100) + 1)
                  AND MESSAGE_SEQ_MASK)
           else next_sequence (mcu_boot (message_frame 0x10 [7, 42]) 100))"
    by blast
  from a c have r: "r \<noteq> None" by simp
  with d n have "next_sequence s' = 0x11" by simp
  with c r have "\<exists>r s'. command_get_message (mcu_boot (message_frame 0x10 [7, 42]) 100) = Inr (r, s')
         \<and> r \<noteq> None \<and> next_sequence s' = 0x11"
    by blast
  with a b show ?thesis by (intro conjI)
qed

lemma message_frame_accepted:
  assumes len: "length p \<le> 59" and tag: "q AND NOT MESSAGE_SEQ_MASK = MESSAGE_DEST"
    and nseq: "next_sequence s = q"
    and sync: "sync_state s AND CF_NEED_SYNC = 0"
    and inp: "input_buf s = message_frame q p @ rest"
  shows "command_get_message s =
     Inr (Some (message_frame q p @ take (250 - length p) rest),
          send_empty (s\<lparr>sync_state := sync_state s AND NOT CF_NEED_VALID,
                         next_sequence := ((q + 1) AND MESSAGE_SEQ_MASK) OR MESSAGE_DEST\<rparr>))"
proof -
  define buf where "buf = message_frame q p @ take (250 - length p) rest"
  have cgi: "console_get_input s = buf"
    unfolding buf_def using len inp by (rule message_frame_input)
  have ok: "cgm_crc_ok s" using len tag sync inp by (rule message_frame_crc_ok)
  have n1: "buf ! MESSAGE_POS_SEQ = q"
    by (simp add: buf_def MESSAGE_POS_SEQ_def nth_append message_frame_length message_frame_nth)
  show ?thesis
    using cgm_crc_ok_path [OF ok] nseq
    by (simp add: cgi n1 cgm_valid_eq buf_def [symmetric])
qed

lemma message_payload_frame:
  assumes "length p \<le> 250"
  shows "message_payload (message_frame q p @ rest) = p"
proof -
  have "unat (of_nat (length p + 5) :: u8) = length p + 5"
    using assms by (intro unat_of_nat_u8) simp
  then have "unat ((message_frame q p @ rest) ! 0) = length p + 5"
    by (simp add: nth_append message_frame_length message_frame_nth)
  then show ?thesis
    using message_frame_payload [of p q rest]
    by (simp add: message_payload_def MESSAGE_POS_LEN_def MESSAGE_TRAILER_SIZE_def
        MESSAGE_HEADER_SIZE_def)
qed

text \<open>
  C1. Frame round-trip: for every payload \<open>p\<close> of length 0 to 59 and every sequence number
  \<open>seq\<close> in [0,15], the frame that the transmission path builds around \<open>p\<close> with the SEQ
  byte \<open>0x10 | seq\<close> (LEN byte, SEQ byte, payload, big-endian CRC over all preceding
  bytes, trailing \<open>0x7E\<close>), presented at the head of the input to the reception path
  whose \<open>next_sequence\<close> is \<open>0x10 | seq\<close> and which is not waiting for a sync byte, is
  accepted: \<open>command_get_message\<close> returns the buffer, the payload region of that buffer
  is exactly \<open>p\<close>, and the low four bits of its SEQ byte are \<open>seq\<close>.
\<close>

theorem frame_roundtrip:
  assumes "length p \<le> 59" and "seq \<le> 15"
    and "next_sequence s = MESSAGE_DEST OR seq"
    and "sync_state s AND CF_NEED_SYNC = 0"
    and "input_buf s = message_frame (MESSAGE_DEST OR seq) p @ rest"
  shows "\<exists>buf s'. command_get_message s = Inr (Some buf, s')
           \<and> message_payload buf = p
           \<and> (buf ! MESSAGE_POS_SEQ) AND MESSAGE_SEQ_MASK = seq
           \<and> unat (buf ! MESSAGE_POS_LEN) = length p + 5"
proof -
  define q where "q = MESSAGE_DEST OR seq"
  define buf where "buf = message_frame q p @ take (250 - length p) rest"
  have tag: "q AND NOT MESSAGE_SEQ_MASK = MESSAGE_DEST" and low: "q AND MESSAGE_SEQ_MASK = seq"
    unfolding q_def using assms(2) by (rule seq_le_15)+
  have "\<exists>s'. command_get_message s = Inr (Some buf, s')"
    using message_frame_accepted [OF assms(1) tag _ assms(4), of rest] assms(3,5)
    by (simp add: q_def buf_def)
  moreover have "message_payload buf = p"
    unfolding buf_def using assms(1) by (intro message_payload_frame) simp
  moreover have "buf ! MESSAGE_POS_SEQ = q"
    by (simp add: buf_def MESSAGE_POS_SEQ_def nth_append message_frame_length message_frame_nth)
  moreover have "unat (buf ! MESSAGE_POS_LEN) = length p + 5"
  proof -
    have "unat (of_nat (length p + 5) :: u8) = length p + 5"
      using assms(1) by (intro unat_of_nat_u8) simp
    then show ?thesis
      by (simp add: buf_def MESSAGE_POS_LEN_def nth_append message_frame_length message_frame_nth)
  qed
  ultimately show ?thesis using low by auto
qed

theorem frame_roundtrip_witness:
  "length [7 :: u8, 42] \<le> 59 \<and> (3 :: u8) \<le> 15
   \<and> (\<exists>buf s'. command_get_message
                   ((mcu_boot (message_frame (MESSAGE_DEST OR 3) [7, 42] @ [0x55]) 100)
                      \<lparr>next_sequence := MESSAGE_DEST OR 3\<rparr>) = Inr (Some buf, s')
           \<and> message_payload buf = [7, 42]
           \<and> (buf ! MESSAGE_POS_SEQ) AND MESSAGE_SEQ_MASK = 3
           \<and> unat (buf ! MESSAGE_POS_LEN) = length [7 :: u8, 42] + 5)"
proof -
  let ?s = "(mcu_boot (message_frame (MESSAGE_DEST OR 3) [7, 42] @ [0x55]) 100)
              \<lparr>next_sequence := MESSAGE_DEST OR 3\<rparr>"
  have 1: "length [7 :: u8, 42] \<le> 59" by simp
  have 2: "(3 :: u8) \<le> 15" by simp
  have 3: "next_sequence ?s = MESSAGE_DEST OR 3" by simp
  have 4: "sync_state ?s AND CF_NEED_SYNC = 0" by (simp add: mcu_boot_def)
  have 5: "input_buf ?s = message_frame (MESSAGE_DEST OR 3) [7, 42] @ [0x55]"
    by (simp add: mcu_boot_def)
  from 1 2 frame_roundtrip [OF 1 2 3 4 5] show ?thesis by (intro conjI)
qed

text \<open>
  C6. Frame length bounds. A call of \<open>command_get_message\<close> that is not resynchronising
  and sees at least \<open>MESSAGE_MIN\<close> bytes whose LEN byte is below 5 or above 64 takes the
  fail path (label \<open>error\<close>) and returns no message; in particular LEN = 65 is rejected.
  A LEN byte of exactly 64 is accepted when all other checks pass: with 64 bytes
  available, the destination tag in the SEQ byte, \<open>0x7E\<close> at offset 63 and a matching CRC,
  the call goes on as for a valid frame, and returns the buffer when the SEQ byte equals
  \<open>next_sequence\<close>.
\<close>

theorem frame_length_bounds:
  "(sync_state s AND CF_NEED_SYNC = 0 \<and> MESSAGE_MIN \<le> length (console_get_input s)
      \<and> (unat (console_get_input s ! MESSAGE_POS_LEN) < 5
          \<or> 64 < unat (console_get_input s ! MESSAGE_POS_LEN))
     \<longrightarrow> command_get_message s = cgm_error (console_get_input s) s
         \<and> (\<exists>s'. command_get_message s = Inr (None, s')))
   \<and> (sync_state s AND CF_NEED_SYNC = 0 \<and> console_get_input s ! MESSAGE_POS_LEN = 64
      \<and> 64 \<le> length (console_get_input s)
      \<and> (console_get_input s ! MESSAGE_POS_SEQ) AND NOT MESSAGE_SEQ_MASK = MESSAGE_DEST
      \<and> console_get_input s ! 63 = MESSAGE_SYNC
      \<and> crc16_ccitt (console_get_input s) 61 = msgcrc (console_get_input s) 64
     \<longrightarrow> command_get_message s
           = cgm_valid (console_get_input s) 64 (console_get_input s ! MESSAGE_POS_SEQ) s
         \<and> (console_get_input s ! MESSAGE_POS_SEQ = next_sequence s
              \<longrightarrow> (\<exists>s'. command_get_message s = Inr (Some (console_get_input s), s'))))"
proof (intro conjI impI)
  assume a: "sync_state s AND CF_NEED_SYNC = 0 \<and> MESSAGE_MIN \<le> length (console_get_input s)
      \<and> (unat (console_get_input s ! MESSAGE_POS_LEN) < 5
          \<or> 64 < unat (console_get_input s ! MESSAGE_POS_LEN))"
  then show e: "command_get_message s = cgm_error (console_get_input s) s"
    by (intro cgm_bad_len_path) (simp_all add: MESSAGE_MIN_def MESSAGE_MAX_def)
  show "\<exists>s'. command_get_message s = Inr (None, s')"
    unfolding e using cgm_error_effect [of "console_get_input s" s] by blast
next
  assume a: "sync_state s AND CF_NEED_SYNC = 0 \<and> console_get_input s ! MESSAGE_POS_LEN = 64
      \<and> 64 \<le> length (console_get_input s)
      \<and> (console_get_input s ! MESSAGE_POS_SEQ) AND NOT MESSAGE_SEQ_MASK = MESSAGE_DEST
      \<and> console_get_input s ! 63 = MESSAGE_SYNC
      \<and> crc16_ccitt (console_get_input s) 61 = msgcrc (console_get_input s) 64"
  have u: "unat (64 :: u8) = 64" by simp
  have d: "(64 :: u8) - 3 = 61" by simp
  have ok: "cgm_crc_ok s"
    using a
    by (simp add: cgm_crc_ok_def cgm_framed_def Let_def u d MESSAGE_MIN_def MESSAGE_MAX_def
        MESSAGE_TRAILER_SYNC_def MESSAGE_TRAILER_SIZE_def)
  show v: "command_get_message s
           = cgm_valid (console_get_input s) 64 (console_get_input s ! MESSAGE_POS_SEQ) s"
    using cgm_crc_ok_path [OF ok] a by simp
  show "\<exists>s'. command_get_message s = Inr (Some (console_get_input s), s')"
    if "console_get_input s ! MESSAGE_POS_SEQ = next_sequence s"
    unfolding v using that by (simp add: cgm_valid_eq)
qed

theorem frame_length_bounds_witness:
  "command_get_message (mcu_boot (65 # replicate 64 0) 100)
       = cgm_error (console_get_input (mcu_boot (65 # replicate 64 0) 100))
           (mcu_boot (65 # replicate 64 0) 100)
   \<and> (\<exists>s'. command_get_message (mcu_boot (65 # replicate 64 0) 100) = Inr (None, s'))
   \<and> (\<exists>s'. command_get_message (mcu_boot [4, 0x10, 0x00, 0x7E, 0x00] 100) = Inr (None, s'))
   \<and> length (message_frame 0x10 (replicate 59 0)) = 64
   \<and> (\<exists>s'. command_get_message (mcu_boot (message_frame 0x10 (replicate 59 0)) 100)
          = Inr (Some (console_get_input (mcu_boot (message_frame 0x10 (replicate 59 0)) 100)), s'))"
proof -
  let ?s65 = "mcu_boot (65 # replicate 64 0) 100"
  let ?s4 = "mcu_boot [4, 0x10, 0x00, 0x7E, 0x00] 100"
  let ?s64 = "mcu_boot (message_frame 0x10 (replicate 59 0)) 100"
  have h65: "sync_state ?s65 AND CF_NEED_SYNC = 0 \<and> MESSAGE_MIN \<le> length (console_get_input ?s65)
      \<and> (unat (console_get_input ?s65 ! MESSAGE_POS_LEN) < 5
          \<or> 64 < unat (console_get_input ?s65 ! MESSAGE_POS_LEN))"
    by code_simp
  have h4: "sync_state ?s4 AND CF_NEED_SYNC = 0 \<and> MESSAGE_MIN \<le> length (console_get_input ?s4)
      \<and> (unat (console_get_input ?s4 ! MESSAGE_POS_LEN) < 5
          \<or> 64 < unat (console_get_input ?s4 ! MESSAGE_POS_LEN))"
    by code_simp
  have p59: "length (replicate 59 (0 :: u8)) = 59" by simp
  have cgi: "console_get_input ?s64 = message_frame 0x10 (replicate 59 0)"
    using message_frame_input [of "replicate 59 0" ?s64 "0x10" "[]"]
    by (simp add: mcu_boot_def)
  have n0: "message_frame 0x10 (replicate 59 0) ! 0 = 64"
    and n1: "message_frame 0x10 (replicate 59 0) ! 1 = 0x10"
    and n63: "message_frame 0x10 (replicate 59 0) ! 63 = MESSAGE_SYNC"
    using message_frame_nth [of "0x10" "replicate 59 0"] by (simp_all only: p59) simp_all
  have crc: "crc16_ccitt (message_frame 0x10 (replicate 59 0)) 61
      = msgcrc (message_frame 0x10 (replicate 59 0)) 64"
    using message_frame_crc [of "replicate 59 0" "0x10" "[]"] by (simp only: p59) simp
  have tag: "(0x10 :: u8) AND NOT MESSAGE_SEQ_MASK = MESSAGE_DEST"
    by (simp add: MESSAGE_SEQ_MASK_def MESSAGE_DEST_def)
  have h64: "sync_state ?s64 AND CF_NEED_SYNC = 0 \<and> console_get_input ?s64 ! MESSAGE_POS_LEN = 64
      \<and> 64 \<le> length (console_get_input ?s64)
      \<and> (console_get_input ?s64 ! MESSAGE_POS_SEQ) AND NOT MESSAGE_SEQ_MASK = MESSAGE_DEST
      \<and> console_get_input ?s64 ! 63 = MESSAGE_SYNC
      \<and> crc16_ccitt (console_get_input ?s64) 61 = msgcrc (console_get_input ?s64) 64"
    unfolding cgi MESSAGE_POS_LEN_def MESSAGE_POS_SEQ_def n0 n1 n63
    using crc tag by (simp add: message_frame_length mcu_boot_def)
  have q64: "console_get_input ?s64 ! MESSAGE_POS_SEQ = next_sequence ?s64"
    unfolding cgi MESSAGE_POS_SEQ_def n1 by (simp add: mcu_boot_def MESSAGE_DEST_def)
  have l64: "length (message_frame 0x10 (replicate 59 0)) = 64"
    by (simp add: message_frame_length)
  from frame_length_bounds [of ?s65] h65
  have a: "command_get_message ?s65 = cgm_error (console_get_input ?s65) ?s65"
    and b: "\<exists>s'. command_get_message ?s65 = Inr (None, s')"
    by blast+
  from frame_length_bounds [of ?s4] h4
  have c: "\<exists>s'. command_get_message ?s4 = Inr (None, s')"
    by blast
  from frame_length_bounds [of ?s64] h64 q64
  have d: "\<exists>s'. command_get_message ?s64 = Inr (Some (console_get_input ?s64), s')"
    by blast
  from a b c l64 d show ?thesis by (intro conjI)
qed

section \<open>The NAK latch over a run of polls\<close>

lemma deliver_simps [simp]:
  "need_valid (deliver ev s) = need_valid s"
  "output_frames (deliver ev s) = output_frames s"
  "next_sequence (deliver ev s) = next_sequence s"
  by (simp_all add: deliver_def need_valid_def)

lemma poll_run_invalid:
  "run_invalid evs s \<Longrightarrow>
   \<exists>s'. poll_run evs s = Inr s' \<and> next_sequence s' = next_sequence s
     \<and> (need_valid s \<longrightarrow> output_frames s' = output_frames s)
     \<and> (output_frames s' = output_frames s
         \<or> output_frames s' = output_frames s @ [message_frame (next_sequence s) [] ])"
proof (induction evs arbitrary: s)
  case Nil
  then show ?case by simp
next
  case (Cons ev evs)
  from Cons.prems have bad: "\<not> cgm_crc_ok (deliver ev s)" by simp
  from cgm_not_ok_effect [OF bad] obtain s1 where
    step: "command_get_message (deliver ev s) = Inr (None, s1)"
    and seq1: "next_sequence s1 = next_sequence s"
    and keep: "need_valid s \<longrightarrow> need_valid s1"
    and out1: "output_frames s1 = output_frames s
          \<or> (\<not> need_valid s \<and> need_valid s1
              \<and> output_frames s1 = output_frames s @ [message_frame (next_sequence s) [] ])"
    by auto
  from Cons.prems step have "run_invalid evs s1" by simp
  from Cons.IH [OF this] obtain s' where
    run: "poll_run evs s1 = Inr s'" and seq': "next_sequence s' = next_sequence s1"
    and latched: "need_valid s1 \<longrightarrow> output_frames s' = output_frames s1"
    and out': "output_frames s' = output_frames s1
         \<or> output_frames s' = output_frames s1 @ [message_frame (next_sequence s1) [] ]"
    by auto
  have "poll_run (ev # evs) s = Inr s'" using step run by simp
  moreover have "next_sequence s' = next_sequence s" using seq' seq1 by simp
  moreover have "need_valid s \<longrightarrow> output_frames s' = output_frames s"
    using keep out1 latched by auto
  moreover have "output_frames s' = output_frames s
         \<or> output_frames s' = output_frames s @ [message_frame (next_sequence s) [] ]"
    using out1 out' latched seq1 by auto
  ultimately show ?case by blast
qed

text \<open>
  C5. NAK suppression discipline. Across any run of calls of \<open>command_get_message\<close> in
  which no frame passes the CRC comparison (a contiguous run of invalid input, however the
  bytes arrive and whatever room the output has), every call returns and at most one NAK
  frame is emitted. In a single such call a NAK is emitted only if the latch
  \<open>CF_NEED_VALID\<close> was clear, and the latch is then set; a latch that is set stays set, so
  it is cleared only by a call in which the CRC comparison passes. Moreover, when the
  call is not resynchronising, sees at least \<open>MESSAGE_MIN\<close> bytes and the first byte is the
  sync byte \<open>0x7E\<close>, exactly one byte is popped and nothing else changes: no NAK is
  emitted.
\<close>

theorem nak_suppression:
  "(run_invalid evs s \<longrightarrow>
      (\<exists>s'. poll_run evs s = Inr s'
          \<and> length (output_frames s') \<le> length (output_frames s) + 1
          \<and> (need_valid s \<longrightarrow> output_frames s' = output_frames s)))
   \<and> (\<not> cgm_crc_ok s \<longrightarrow>
      (\<exists>s'. command_get_message s = Inr (None, s')
          \<and> (output_frames s' \<noteq> output_frames s \<longrightarrow>
                \<not> need_valid s \<and> need_valid s'
                \<and> output_frames s' = output_frames s @ [message_frame (next_sequence s) [] ])
          \<and> (need_valid s \<longrightarrow> need_valid s')))
   \<and> (sync_state s AND CF_NEED_SYNC = 0 \<and> MESSAGE_MIN \<le> length (console_get_input s)
        \<and> console_get_input s ! 0 = MESSAGE_SYNC \<longrightarrow>
      command_get_message s = Inr (None, s\<lparr>input_buf := drop 1 (input_buf s)\<rparr>))"
proof (intro conjI impI)
  assume "run_invalid evs s"
  from poll_run_invalid [OF this] obtain s' where
    "poll_run evs s = Inr s'"
    "need_valid s \<longrightarrow> output_frames s' = output_frames s"
    "output_frames s' = output_frames s
         \<or> output_frames s' = output_frames s @ [message_frame (next_sequence s) [] ]"
    by auto
  then show "\<exists>s'. poll_run evs s = Inr s'
          \<and> length (output_frames s') \<le> length (output_frames s) + 1
          \<and> (need_valid s \<longrightarrow> output_frames s' = output_frames s)"
    by auto
next
  assume "\<not> cgm_crc_ok s"
  from cgm_not_ok_effect [OF this]
  show "\<exists>s'. command_get_message s = Inr (None, s')
          \<and> (output_frames s' \<noteq> output_frames s \<longrightarrow>
                \<not> need_valid s \<and> need_valid s'
                \<and> output_frames s' = output_frames s @ [message_frame (next_sequence s) [] ])
          \<and> (need_valid s \<longrightarrow> need_valid s')"
    by auto
next
  assume a: "sync_state s AND CF_NEED_SYNC = 0 \<and> MESSAGE_MIN \<le> length (console_get_input s)
        \<and> console_get_input s ! 0 = MESSAGE_SYNC"
  then have "unat (console_get_input s ! MESSAGE_POS_LEN) = 126"
    by (simp add: MESSAGE_POS_LEN_def MESSAGE_SYNC_def)
  then have "command_get_message s = cgm_error (console_get_input s) s"
    using a by (intro cgm_bad_len_path) (simp_all add: MESSAGE_MAX_def)
  then show "command_get_message s = Inr (None, s\<lparr>input_buf := drop 1 (input_buf s)\<rparr>)"
    using a by (simp add: cgm_error_sync console_pop_input_def)
qed

theorem nak_suppression_witness:
  "run_invalid [([0xFF, 0xFF, 0x00, 0x01, 0x02], 100), ([0x03, 0x7E], 100),
                ([0x41, 0x42, 0x43, 0x44, 0x45], 100)] (mcu_boot [] 100)
   \<and> poll_run [([0xFF, 0xFF, 0x00, 0x01, 0x02], 100), ([0x03, 0x7E], 100),
                ([0x41, 0x42, 0x43, 0x44, 0x45], 100)] (mcu_boot [] 100)
       = Inr ((mcu_boot [] 100)\<lparr>sync_state := 3, output_frames := [message_frame 0x10 [] ]\<rparr>)
   \<and> (\<exists>s'. poll_run [([0xFF, 0xFF, 0x00, 0x01, 0x02], 100), ([0x03, 0x7E], 100),
                ([0x41, 0x42, 0x43, 0x44, 0x45], 100)] (mcu_boot [] 100) = Inr s'
          \<and> length (output_frames s') \<le> length (output_frames (mcu_boot [] 100)) + 1)
   \<and> \<not> cgm_crc_ok (mcu_boot [0xFF, 0xFF, 0x00, 0x01, 0x02] 100)
   \<and> (\<exists>s'. command_get_message (mcu_boot [0xFF, 0xFF, 0x00, 0x01, 0x02] 100) = Inr (None, s')
          \<and> output_frames s' = [message_frame 0x10 [] ] \<and> need_valid s')
   \<and> command_get_message (mcu_boot [0x7E, 0x7E, 0x05, 0x10, 0x9E] 100)
       = Inr (None, mcu_boot [0x7E, 0x05, 0x10, 0x9E] 100)"
proof -
  let ?evs = "[([0xFF, 0xFF, 0x00, 0x01, 0x02], 100), ([0x03, 0x7E], 100),
                ([0x41, 0x42, 0x43, 0x44, 0x45], 100)] :: (u8 list \<times> nat) list"
  let ?s = "mcu_boot [0xFF, 0xFF, 0x00, 0x01, 0x02] 100"
  let ?t = "mcu_boot [0x7E, 0x7E, 0x05, 0x10, 0x9E] 100"
  have inv: "run_invalid ?evs (mcu_boot [] 100)" by code_simp
  have run: "poll_run ?evs (mcu_boot [] 100)
       = Inr ((mcu_boot [] 100)\<lparr>sync_state := 3, output_frames := [message_frame 0x10 [] ]\<rparr>)"
    by code_simp
  have bad: "\<not> cgm_crc_ok ?s" by code_simp
  have one: "command_get_message ?s
       = Inr (None, (mcu_boot [] 100)\<lparr>sync_state := 3, output_frames := [message_frame 0x10 [] ],
                                       out_free := 95\<rparr>)"
    by code_simp
  have lead: "sync_state ?t AND CF_NEED_SYNC = 0 \<and> MESSAGE_MIN \<le> length (console_get_input ?t)
        \<and> console_get_input ?t ! 0 = MESSAGE_SYNC"
    by code_simp
  from nak_suppression [of ?evs "mcu_boot [] 100"] inv
  have a: "\<exists>s'. poll_run ?evs (mcu_boot [] 100) = Inr s'
          \<and> length (output_frames s') \<le> length (output_frames (mcu_boot [] 100)) + 1"
    by blast
  from nak_suppression [of "[]" ?s] bad obtain s' where
    st: "command_get_message ?s = Inr (None, s')"
    and nak: "output_frames s' \<noteq> output_frames ?s \<longrightarrow>
                \<not> need_valid ?s \<and> need_valid s'
                \<and> output_frames s' = output_frames ?s @ [message_frame (next_sequence ?s) [] ]"
    by blast
  from st one have "output_frames s' \<noteq> output_frames ?s"
    by (auto simp add: mcu_boot_def)
  with nak have "need_valid s'"
    and "output_frames s' = output_frames ?s @ [message_frame (next_sequence ?s) [] ]"
    by blast+
  then have "output_frames s' = [message_frame 0x10 [] ] \<and> need_valid s'"
    by (simp add: mcu_boot_def MESSAGE_DEST_def)
  with st
  have b: "\<exists>s'. command_get_message ?s = Inr (None, s')
          \<and> output_frames s' = [message_frame 0x10 [] ] \<and> need_valid s'"
    by blast
  from nak_suppression [of "[]" ?t] lead
  have "command_get_message ?t = Inr (None, ?t\<lparr>input_buf := drop 1 (input_buf ?t)\<rparr>)"
    by blast
  then have c: "command_get_message ?t = Inr (None, mcu_boot [0x7E, 0x05, 0x10, 0x9E] 100)"
    by (simp add: mcu_boot_def)
  from inv run a bad b c show ?thesis by (intro conjI)
qed

section \<open>The shutdown guard\<close>

lemma encode_int_length: "length (encode_int v) \<le> 5"
  by (simp add: encode_int_cases)

lemma ucast16_and_ffff: "(ucast (r :: u16) :: u32) AND 0xffff = ucast r"
proof -
  have m: "(0xffff :: u32) = mask 16" by (simp add: mask_eq_exp_minus_1)
  show ?thesis unfolding m by (rule bit_word_eqI) (auto simp add: bit_simps dest: bit_imp_le_length)
qed

lemma message_frame_whole:
  assumes "length p \<le> 250"
  shows "take (unat (message_frame q p ! MESSAGE_POS_LEN)) (message_frame q p) = message_frame q p"
proof -
  have "unat (of_nat (length p + 5) :: u8) = length p + 5"
    using assms by (intro unat_of_nat_u8) simp
  then show ?thesis
    by (simp add: MESSAGE_POS_LEN_def message_frame_nth message_frame_length)
qed

lemma sendf_is_shutdown:
  assumes shape: "enc_num_params enc = 1" "enc_param_types enc = [PT_uint16]"
    and size: "1 \<le> unat (max_size enc)"
    and room: "console_get_output (unat (max_size enc) + MESSAGE_MIN) s"
  shows "sendf enc [VA_int (ucast (r :: u16))] s =
     Inr (console_push_output (message_frame (next_sequence s) (msg_id enc # encode_int (ucast r)))
            (length (encode_int (ucast r :: u32)) + 6) s)"
proof -
  define payload where "payload = msg_id enc # encode_int (ucast r :: u32)"
  have nz: "max_size enc \<noteq> 0" using size by (auto simp add: unat_eq_0)
  have loop: "sendf_loop (unat (max_size enc)) (unat (enc_num_params enc)) (enc_param_types enc)
      [VA_int (ucast r)] [msg_id enc] = Inr payload"
    using size by (simp add: shape ucast16_and_ffff payload_def)
  have len: "length payload \<le> 250"
    using encode_int_length [of "ucast r"] by (simp add: payload_def)
  have "unat (of_nat (length payload + 5) :: u8) = length payload + 5"
    using len by (intro unat_of_nat_u8) simp
  then have l: "unat (message_frame (next_sequence s) payload ! MESSAGE_POS_LEN)
      = length (encode_int (ucast r :: u32)) + 6"
    by (simp add: MESSAGE_POS_LEN_def message_frame_nth payload_def)
  show ?thesis
    using room nz loop l by (simp add: sendf_def Let_def payload_def)
qed

lemma parsef_guarded:
  assumes "sched_is_shutdown s" "flags cp AND HF_IN_SHUTDOWN = 0"
  shows "parsef enc buf p maxend cp s =
     (case sendf enc [VA_int (ucast (sched_shutdown_reason s))] s of
        Inl e \<Rightarrow> Inl e
      | Inr s' \<Rightarrow> Inr (None, s'))"
  using assms by (simp add: parsef_def)

lemma command_task_loop_guarded:
  assumes "p < msgend" "p < length buf"
    and "command_get_handler (command_index sc) (buf ! p) = Inr cp"
    and "sched_is_shutdown s" "flags cp AND HF_IN_SHUTDOWN = 0"
  shows "command_task_loop sc buf msgend p s =
     sendf (encoder_is_shutdown sc) [VA_int (ucast (sched_shutdown_reason s))] s"
  using assms
  by (subst command_task_loop.simps) (simp add: parsef_guarded Let_def split: sum.splits)

text \<open>
  C9. Shutdown guard. If the device is in shutdown state and the command's parser flags
  lack the \<open>HF_IN_SHUTDOWN\<close> bit, \<open>parsef\<close> neither reads the payload nor parses
  arguments: its result is that of sending the \<open>is_shutdown\<close> response with the shutdown
  reason as its argument, followed by the skip result (NULL); the input is left as it
  was. When the \<open>is_shutdown\<close> encoder has the single parameter \<open>%hu\<close> and the transport
  has room, the frame committed carries the message id followed by the VLQ encoding of
  the reason code. The dispatcher then leaves its loop without invoking the handler of
  this command or looking at the remaining commands, and \<open>command_task\<close> pops the whole
  frame (\<open>msglen\<close> bytes) from the input.
\<close>

theorem shutdown_guard:
  "(sched_is_shutdown s \<and> flags cp AND HF_IN_SHUTDOWN = 0 \<longrightarrow>
      parsef enc buf p maxend cp s =
        (case sendf enc [VA_int (ucast (sched_shutdown_reason s))] s of
           Inl e \<Rightarrow> Inl e
         | Inr s' \<Rightarrow> Inr (None, s'))
      \<and> (\<forall>r s'. parsef enc buf p maxend cp s = Inr (r, s') \<longrightarrow>
             r = None \<and> input_buf s' = input_buf s)
      \<and> (enc_num_params enc = 1 \<and> enc_param_types enc = [PT_uint16] \<and> 1 \<le> unat (max_size enc)
           \<and> console_get_output (unat (max_size enc) + MESSAGE_MIN) s \<longrightarrow>
          (\<exists>s'. parsef enc buf p maxend cp s = Inr (None, s')
             \<and> output_frames s' = output_frames s @
                  [message_frame (next_sequence s)
                     (msg_id enc # encode_int (ucast (sched_shutdown_reason s)))])))
   \<and> (p < msgend \<and> p < length buf
        \<and> command_get_handler (command_index sc) (buf ! p) = Inr cp
        \<and> sched_is_shutdown s \<and> flags cp AND HF_IN_SHUTDOWN = 0 \<longrightarrow>
      command_task_loop sc buf msgend p s =
        sendf (encoder_is_shutdown sc) [VA_int (ucast (sched_shutdown_reason s))] s)
   \<and> (command_get_message s = Inr (Some buf, s1)
        \<and> MESSAGE_HEADER_SIZE < unat (buf ! MESSAGE_POS_LEN) - MESSAGE_TRAILER_SIZE
        \<and> MESSAGE_HEADER_SIZE < length buf
        \<and> command_get_handler (command_index sc) (buf ! MESSAGE_HEADER_SIZE) = Inr cp
        \<and> sched_is_shutdown s1 \<and> flags cp AND HF_IN_SHUTDOWN = 0 \<longrightarrow>
      command_task sc s =
        (case sendf (encoder_is_shutdown sc) [VA_int (ucast (sched_shutdown_reason s1))] s1 of
           Inl e \<Rightarrow> Inl e
         | Inr s2 \<Rightarrow> Inr (console_pop_input (unat (buf ! MESSAGE_POS_LEN)) s2)))"
proof (intro conjI impI allI)
  assume a: "sched_is_shutdown s \<and> flags cp AND HF_IN_SHUTDOWN = 0"
  then show g: "parsef enc buf p maxend cp s =
        (case sendf enc [VA_int (ucast (sched_shutdown_reason s))] s of
           Inl e \<Rightarrow> Inl e
         | Inr s' \<Rightarrow> Inr (None, s'))"
    by (intro parsef_guarded) simp_all
  show "r = None" if "parsef enc buf p maxend cp s = Inr (r, s')" for r s'
    using that unfolding g by (auto split: sum.splits)
  show "input_buf s' = input_buf s" if "parsef enc buf p maxend cp s = Inr (r, s')" for r s'
    using that unfolding g by (auto split: sum.splits dest: sendf_keeps_state(3))
  show "\<exists>s'. parsef enc buf p maxend cp s = Inr (None, s')
             \<and> output_frames s' = output_frames s @
                  [message_frame (next_sequence s)
                     (msg_id enc # encode_int (ucast (sched_shutdown_reason s)))]"
    if b: "enc_num_params enc = 1 \<and> enc_param_types enc = [PT_uint16] \<and> 1 \<le> unat (max_size enc)
           \<and> console_get_output (unat (max_size enc) + MESSAGE_MIN) s"
  proof -
    let ?payload = "msg_id enc # encode_int (ucast (sched_shutdown_reason s) :: u32)"
    have len: "length ?payload \<le> 250"
      using encode_int_length [of "ucast (sched_shutdown_reason s)"] by simp
    have whole: "take (length (encode_int (ucast (sched_shutdown_reason s) :: u32)) + 6)
        (message_frame (next_sequence s) ?payload) = message_frame (next_sequence s) ?payload"
      by (simp add: message_frame_length)
    have "sendf enc [VA_int (ucast (sched_shutdown_reason s))] s =
        Inr (console_push_output (message_frame (next_sequence s) ?payload)
            (length (encode_int (ucast (sched_shutdown_reason s) :: u32)) + 6) s)"
      using b by (intro sendf_is_shutdown) simp_all
    then show ?thesis
      unfolding g by (simp add: console_push_output_def whole)
  qed
next
  assume "p < msgend \<and> p < length buf
        \<and> command_get_handler (command_index sc) (buf ! p) = Inr cp
        \<and> sched_is_shutdown s \<and> flags cp AND HF_IN_SHUTDOWN = 0"
  then show "command_task_loop sc buf msgend p s =
        sendf (encoder_is_shutdown sc) [VA_int (ucast (sched_shutdown_reason s))] s"
    by (elim conjE) (rule command_task_loop_guarded)
next
  assume a: "command_get_message s = Inr (Some buf, s1)
        \<and> MESSAGE_HEADER_SIZE < unat (buf ! MESSAGE_POS_LEN) - MESSAGE_TRAILER_SIZE
        \<and> MESSAGE_HEADER_SIZE < length buf
        \<and> command_get_handler (command_index sc) (buf ! MESSAGE_HEADER_SIZE) = Inr cp
        \<and> sched_is_shutdown s1 \<and> flags cp AND HF_IN_SHUTDOWN = 0"
  then have "command_task_loop sc buf (unat (buf ! MESSAGE_POS_LEN) - MESSAGE_TRAILER_SIZE)
      MESSAGE_HEADER_SIZE s1 =
        sendf (encoder_is_shutdown sc) [VA_int (ucast (sched_shutdown_reason s1))] s1"
    by (elim conjE) (rule command_task_loop_guarded)
  then show "command_task sc s =
        (case sendf (encoder_is_shutdown sc) [VA_int (ucast (sched_shutdown_reason s1))] s1 of
           Inl e \<Rightarrow> Inl e
         | Inr s2 \<Rightarrow> Inr (console_pop_input (unat (buf ! MESSAGE_POS_LEN)) s2))"
    using a by (simp add: command_task_def Let_def)
qed

theorem shutdown_guard_witness:
  "command_get_message
       ((mcu_boot (message_frame 0x10 [0, 5, 0, 7]) 100)
          \<lparr>sched_is_shutdown := True, sched_shutdown_reason := 0x1234\<rparr>)
     = Inr (Some [9, 0x10, 0, 5, 0, 7, 0xD4, 0x41, 0x7E],
            (mcu_boot [9, 0x10, 0, 5, 0, 7, 0xD4, 0x41, 0x7E] 95)
               \<lparr>next_sequence := 0x11, output_frames := [ [5, 0x11, 0x8F, 0x08, 0x7E] ],
                 sched_is_shutdown := True, sched_shutdown_reason := 0x1234\<rparr>)
   \<and> command_task example_schema
       ((mcu_boot (message_frame 0x10 [0, 5, 0, 7]) 100)
          \<lparr>sched_is_shutdown := True, sched_shutdown_reason := 0x1234\<rparr>)
     = (case sendf (encoder_is_shutdown example_schema) [VA_int 0x1234]
               ((mcu_boot [9, 0x10, 0, 5, 0, 7, 0xD4, 0x41, 0x7E] 95)
                  \<lparr>next_sequence := 0x11, output_frames := [ [5, 0x11, 0x8F, 0x08, 0x7E] ],
                    sched_is_shutdown := True, sched_shutdown_reason := 0x1234\<rparr>) of
          Inl e \<Rightarrow> Inl e
        | Inr s2 \<Rightarrow> Inr (console_pop_input 9 s2))
   \<and> command_task example_schema
       ((mcu_boot (message_frame 0x10 [0, 5, 0, 7]) 100)
          \<lparr>sched_is_shutdown := True, sched_shutdown_reason := 0x1234\<rparr>)
     = Inr ((mcu_boot [] 87)
              \<lparr>next_sequence := 0x11,
                output_frames := [ [5, 0x11, 0x8F, 0x08, 0x7E],
                                  [8, 0x11, 2, 0xA4, 0x34, 0xBF, 0x32, 0x7E] ],
                sched_is_shutdown := True, sched_shutdown_reason := 0x1234\<rparr>)
   \<and> (\<exists>s'. parsef (encoder_is_shutdown example_schema)
                [9, 0x10, 0, 5, 0, 7, 0xD4, 0x41, 0x7E] 3 6 example_parser
                ((mcu_boot [9, 0x10, 0, 5, 0, 7, 0xD4, 0x41, 0x7E] 95)
                   \<lparr>next_sequence := 0x11, output_frames := [ [5, 0x11, 0x8F, 0x08, 0x7E] ],
                     sched_is_shutdown := True, sched_shutdown_reason := 0x1234\<rparr>)
              = Inr (None, s')
          \<and> output_frames s' =
               [ [5, 0x11, 0x8F, 0x08, 0x7E], message_frame 0x11 (2 # encode_int 0x1234) ])
   \<and> encode_int 0x1234 = [0xA4, 0x34]"
proof -
  let ?s = "(mcu_boot (message_frame 0x10 [0, 5, 0, 7]) 100)
          \<lparr>sched_is_shutdown := True, sched_shutdown_reason := 0x1234\<rparr>"
  let ?buf = "[9, 0x10, 0, 5, 0, 7, 0xD4, 0x41, 0x7E] :: u8 list"
  let ?s1 = "(mcu_boot ?buf 95)
               \<lparr>next_sequence := 0x11, output_frames := [ [5, 0x11, 0x8F, 0x08, 0x7E] ],
                 sched_is_shutdown := True, sched_shutdown_reason := 0x1234\<rparr>"
  have get: "command_get_message ?s = Inr (Some ?buf, ?s1)" by code_simp
  have h1: "MESSAGE_HEADER_SIZE < unat (?buf ! MESSAGE_POS_LEN) - MESSAGE_TRAILER_SIZE" by code_simp
  have h2: "MESSAGE_HEADER_SIZE < length ?buf" by code_simp
  have h3: "command_get_handler (command_index example_schema) (?buf ! MESSAGE_HEADER_SIZE)
      = Inr example_parser"
    by (simp add: command_get_handler_def example_schema_def MESSAGE_HEADER_SIZE_def)
  have h4: "sched_is_shutdown ?s1" by simp
  have h5: "flags example_parser AND HF_IN_SHUTDOWN = 0" by (simp add: example_parser_def)
  have r: "ucast (sched_shutdown_reason ?s1) = (0x1234 :: u32)" by simp
  have l: "unat (?buf ! MESSAGE_POS_LEN) = 9" by (simp add: MESSAGE_POS_LEN_def)
  from shutdown_guard [where cp = example_parser and sc = example_schema and s = ?s
      and buf = ?buf and ?s1.0 = ?s1]
    get h1 h2 h3 h4 h5
  have "command_task example_schema ?s =
        (case sendf (encoder_is_shutdown example_schema)
                [VA_int (ucast (sched_shutdown_reason ?s1))] ?s1 of
           Inl e \<Rightarrow> Inl e
         | Inr s2 \<Rightarrow> Inr (console_pop_input (unat (?buf ! MESSAGE_POS_LEN)) s2))"
    by blast
  then have task: "command_task example_schema ?s =
        (case sendf (encoder_is_shutdown example_schema) [VA_int 0x1234] ?s1 of
           Inl e \<Rightarrow> Inl e
         | Inr s2 \<Rightarrow> Inr (console_pop_input 9 s2))"
    by (simp only: r l)
  have res: "command_task example_schema ?s
     = Inr ((mcu_boot [] 87)
              \<lparr>next_sequence := 0x11,
                output_frames := [ [5, 0x11, 0x8F, 0x08, 0x7E],
                                  [8, 0x11, 2, 0xA4, 0x34, 0xBF, 0x32, 0x7E] ],
                sched_is_shutdown := True, sched_shutdown_reason := 0x1234\<rparr>)"
    by code_simp
  have enc: "encode_int 0x1234 = [0xA4, 0x34]" by code_simp
  have shape: "enc_num_params (encoder_is_shutdown example_schema) = 1
      \<and> enc_param_types (encoder_is_shutdown example_schema) = [PT_uint16]
      \<and> 1 \<le> unat (max_size (encoder_is_shutdown example_schema))
      \<and> console_get_output (unat (max_size (encoder_is_shutdown example_schema)) + MESSAGE_MIN) ?s1"
    by (simp add: example_schema_def console_get_output_def MESSAGE_MIN_def mcu_boot_def)
  from shutdown_guard [where cp = example_parser and s = ?s1
      and enc = "encoder_is_shutdown example_schema" and buf = ?buf and p = 3 and maxend = 6]
    h4 h5 shape
  have "\<exists>s'. parsef (encoder_is_shutdown example_schema) ?buf 3 6 example_parser ?s1
              = Inr (None, s')
          \<and> output_frames s' = output_frames ?s1 @
               [message_frame (next_sequence ?s1)
                  (msg_id (encoder_is_shutdown example_schema)
                     # encode_int (ucast (sched_shutdown_reason ?s1)))]"
    by blast
  then have pf: "\<exists>s'. parsef (encoder_is_shutdown example_schema) ?buf 3 6 example_parser ?s1
              = Inr (None, s')
          \<and> output_frames s' =
               [ [5, 0x11, 0x8F, 0x08, 0x7E], message_frame 0x11 (2 # encode_int 0x1234) ]"
    by (simp add: example_schema_def)
  from get task res pf enc show ?thesis by (intro conjI)
qed

section \<open>The parser's bounds check\<close>

text \<open>
  C8 does not hold of the code. \<open>parsef\<close> compares the cursor with \<open>maxend\<close> only at the
  head of each round of its loop, before a parameter is read, and never after the last
  one. The host frame \<open>07 10 00 80 55 9D 7E\<close> (LEN 7, SEQ \<open>0x10\<close>, command 0 followed by the
  single byte \<open>0x80\<close>, correct CRC \<open>0x559D\<close>, sync) is accepted; the payload ends at offset
  4. The command's only parameter is a \<open>uint32\<close>: \<open>parse_int\<close> reads \<open>0x80\<close>, whose
  continuation bit is set, and goes on into the CRC byte \<open>0x55\<close> at offset 4. \<open>parsef\<close>
  returns the cursor 5, beyond \<open>maxend\<close> = 4, with the argument 85 and without a
  shutdown, and \<open>command_task\<close> invokes the handler with that argument (the handler of the
  example schema answers with the message \<open>01 55\<close>).
\<close>

theorem parsef_final_param_crosses_maxend:
  "message_frame 0x10 [0, 0x80] = [7, 0x10, 0, 0x80, 0x55, 0x9D, 0x7E]
   \<and> parsef (encoder_is_shutdown example_schema) [7, 0x10, 0, 0x80, 0x55, 0x9D, 0x7E] 3 4
         example_parser (mcu_boot [7, 0x10, 0, 0x80, 0x55, 0x9D, 0x7E] 100)
       = Inr (Some (5, [85]), mcu_boot [7, 0x10, 0, 0x80, 0x55, 0x9D, 0x7E] 100)
   \<and> command_task example_schema (mcu_boot [7, 0x10, 0, 0x80, 0x55, 0x9D, 0x7E] 100)
       = Inr ((mcu_boot [] 88)
                \<lparr>next_sequence := 0x11,
                  output_frames := [ [5, 0x11, 0x8F, 0x08, 0x7E],
                                    [7, 0x11, 1, 0x55, 0x97, 0xB9, 0x7E] ]\<rparr>)"
proof (intro conjI)
  show "message_frame 0x10 [0, 0x80] = [7, 0x10, 0, 0x80, 0x55, 0x9D, 0x7E]"
    by code_simp
  show "parsef (encoder_is_shutdown example_schema) [7, 0x10, 0, 0x80, 0x55, 0x9D, 0x7E] 3 4
         example_parser (mcu_boot [7, 0x10, 0, 0x80, 0x55, 0x9D, 0x7E] 100)
       = Inr (Some (5, [85]), mcu_boot [7, 0x10, 0, 0x80, 0x55, 0x9D, 0x7E] 100)"
    by code_simp
  show "command_task example_schema (mcu_boot [7, 0x10, 0, 0x80, 0x55, 0x9D, 0x7E] 100)
       = Inr ((mcu_boot [] 88)
                \<lparr>next_sequence := 0x11,
                  output_frames := [ [5, 0x11, 0x8F, 0x08, 0x7E],
                                    [7, 0x11, 1, 0x55, 0x97, 0xB9, 0x7E] ]\<rparr>)"
    by code_simp
qed

end
